theory Spec2Isabelle
  imports Main "HOL-Library.Sublist" "HOL-Library.AList"
begin

section \<open>JavaScript values\<close>

text \<open>
  The module works on values produced by \<^verbatim>\<open>JSON.parse\<close>: null, booleans, numbers,
  strings, arrays and objects. An object is its list of own properties in enumeration
  order. Numbers are modelled as integers (the numbers of a routes manifest and of a
  deploy configuration are status codes and a generation); a string is a list of code
  units below 256. The JavaScript value \<^verbatim>\<open>undefined\<close> (a missing property) is
  \<open>None\<close> of \<open>json option\<close>.
\<close>

datatype json =
    JNull
  | JBool bool
  | JNum int
  | JStr string
  | JArr "json list"
  | JObj "(string \<times> json) list"

text \<open>
  What the code can throw or reject with. \<open>Unmodelled\<close> marks the inputs on which
  this development makes no statement (a number literal with a fraction or an exponent,
  a code unit above 255).
\<close>

datatype error = ENOENT | SyntaxError | TypeError | Unmodelled

text \<open>An object literal of the code: its properties in order, a value may be undefined.\<close>

type_synonym jsobject = "(string \<times> json option) list"

text \<open>ToBoolean, as used by \<^verbatim>\<open>!x\<close>, \<^verbatim>\<open>if (x)\<close>, \<^verbatim>\<open>x || y\<close> and \<^verbatim>\<open>x ||= y\<close>.\<close>

fun truthy :: "json option \<Rightarrow> bool" where
  "truthy None = False"
| "truthy (Some JNull) = False"
| "truthy (Some (JBool b)) = b"
| "truthy (Some (JNum n)) = (n \<noteq> 0)"
| "truthy (Some (JStr s)) = (s \<noteq> [])"
| "truthy (Some (JArr xs)) = True"
| "truthy (Some (JObj ps)) = True"

text \<open>
  Reading a property \<^verbatim>\<open>v.k\<close> or destructuring \<^verbatim>\<open>({k}) => ...\<close> for one of the
  names this module reads (\<^verbatim>\<open>headers\<close>, \<^verbatim>\<open>source\<close>, \<^verbatim>\<open>has\<close>, \<^verbatim>\<open>dependencies\<close>, ...):
  null throws, an object gives its own property, and a number, boolean, string or
  array gives undefined, since none of these names is an index or a built-in property.
\<close>

fun get :: "json \<Rightarrow> string \<Rightarrow> error + json option" where
  "get JNull k = Inl TypeError"
| "get (JObj ps) k = Inr (map_of ps k)"
| "get (JBool b) k = Inr None"
| "get (JNum n) k = Inr None"
| "get (JStr s) k = Inr None"
| "get (JArr xs) k = Inr None"

text \<open>
  The receiver of \<^verbatim>\<open>.map\<close> and \<^verbatim>\<open>.filter\<close>: only an array has these methods;
  on anything else the call throws (a value read from JSON is never a function).
\<close>

fun array_receiver :: "json \<Rightarrow> error + json list" where
  "array_receiver (JArr xs) = Inr xs"
| "array_receiver v = Inl TypeError"

text \<open>\<^verbatim>\<open>xs.map(f)\<close> and \<^verbatim>\<open>xs.filter(p)\<close> with a callback that may throw.\<close>

fun mapM :: "('a \<Rightarrow> error + 'b) \<Rightarrow> 'a list \<Rightarrow> error + 'b list" where
  "mapM f [] = Inr []"
| "mapM f (x # xs) =
     (case f x of
        Inl e \<Rightarrow> Inl e
      | Inr y \<Rightarrow> (case mapM f xs of Inl e \<Rightarrow> Inl e | Inr ys \<Rightarrow> Inr (y # ys)))"

fun filterM :: "('a \<Rightarrow> error + bool) \<Rightarrow> 'a list \<Rightarrow> error + 'a list" where
  "filterM p [] = Inr []"
| "filterM p (x # xs) =
     (case p x of
        Inl e \<Rightarrow> Inl e
      | Inr b \<Rightarrow> (case filterM p xs of
                    Inl e \<Rightarrow> Inl e
                  | Inr ys \<Rightarrow> Inr (if b then x # ys else ys)))"

definition bind :: "error + 'a \<Rightarrow> ('a \<Rightarrow> error + 'b) \<Rightarrow> error + 'b" where
  "bind r f = (case r of Inl e \<Rightarrow> Inl e | Inr x \<Rightarrow> f x)"

section \<open>firebaseJsonStuff: from the routes manifest to the hosting configuration\<close>

record HostingConfig =
  headers :: "jsobject list"
  "rewrites" :: "jsobject list"
  redirects :: "jsobject list"

text \<open>A destructuring default \<^verbatim>\<open>{ k: x = [] }\<close> applies to undefined only.\<close>

definition default_empty :: "json option \<Rightarrow> json" where
  "default_empty v = (case v of None \<Rightarrow> JArr [] | Some x \<Rightarrow> x)"

text \<open>\<^verbatim>\<open>a || b\<close> where \<open>b\<close> is defined.\<close>

definition or_else :: "json option \<Rightarrow> json \<Rightarrow> json" where
  "or_else a b = (case a of None \<Rightarrow> b | Some v \<Rightarrow> if truthy (Some v) then v else b)"

text \<open>\<^verbatim>\<open>({ source, headers }) => ({ source, headers })\<close>\<close>

definition header_callback :: "json \<Rightarrow> error + jsobject" where
  "header_callback e =
     bind (get e ''source'') (\<lambda>source.
     bind (get e ''headers'') (\<lambda>headers.
     Inr [(''source'', source), (''headers'', headers)]))"

text \<open>\<^verbatim>\<open>({ internal }: any) => !internal\<close>\<close>

definition redirect_filter :: "json \<Rightarrow> error + bool" where
  "redirect_filter e = bind (get e ''internal'') (\<lambda>internal. Inr (\<not> truthy internal))"

text \<open>\<^verbatim>\<open>({ source, destination, statusCode: type }) => ({ source, destination, type })\<close>\<close>

definition redirect_callback :: "json \<Rightarrow> error + jsobject" where
  "redirect_callback e =
     bind (get e ''source'') (\<lambda>source.
     bind (get e ''destination'') (\<lambda>destination.
     bind (get e ''statusCode'') (\<lambda>type.
     Inr [(''source'', source), (''destination'', destination), (''type'', type)])))"

text \<open>
  \<^verbatim>\<open>({ source, destination, locale, has }) => { if (has) return undefined;
  return { source, destination }; }\<close>
\<close>

definition rewrite_callback :: "json \<Rightarrow> error + jsobject option" where
  "rewrite_callback e =
     bind (get e ''source'') (\<lambda>source.
     bind (get e ''destination'') (\<lambda>destination.
     bind (get e ''locale'') (\<lambda>locale.
     bind (get e ''has'') (\<lambda>has.
     if truthy has then Inr None
     else Inr (Some [(''source'', source), (''destination'', destination)])))))"

text \<open>
  \<^verbatim>\<open>Array.isArray(nextJsRewrites) ? nextJsRewrites : nextJsRewrites.beforeFiles || []\<close>;
  \<open>nextJsRewrites\<close> is never undefined here, the default has replaced that.
\<close>

definition nextJsRewritesToUse :: "json \<Rightarrow> error + json" where
  "nextJsRewritesToUse nextJsRewrites =
     (case nextJsRewrites of
        JArr xs \<Rightarrow> Inr (JArr xs)
      | _ \<Rightarrow> bind (get nextJsRewrites ''beforeFiles'') (\<lambda>beforeFiles.
               Inr (or_else beforeFiles (JArr []))))"

text \<open>The body of \<open>firebaseJsonStuff\<close> after \<^verbatim>\<open>JSON.parse\<close>, statement by statement.\<close>

definition translate_manifest :: "json \<Rightarrow> error + HostingConfig" where
  "translate_manifest manifest =
     bind (get manifest ''headers'') (\<lambda>h.
     bind (get manifest ''redirects'') (\<lambda>rd.
     bind (get manifest ''rewrites'') (\<lambda>rw.
     let nextJsHeaders = default_empty h;
         nextJsRedirects = default_empty rd;
         nextJsRewrites = default_empty rw
     in
     bind (array_receiver nextJsHeaders) (\<lambda>hs.
     bind (mapM header_callback hs) (\<lambda>headers.
     bind (array_receiver nextJsRedirects) (\<lambda>rs.
     bind (filterM redirect_filter rs) (\<lambda>kept.
     bind (mapM redirect_callback kept) (\<lambda>redirects.
     bind (nextJsRewritesToUse nextJsRewrites) (\<lambda>toUse.
     bind (array_receiver toUse) (\<lambda>ws.
     bind (mapM rewrite_callback ws) (\<lambda>mapped.
     Inr \<lparr>headers = headers,
          rewrites = map the (filter (\<lambda>it. it \<noteq> None) mapped),
          redirects = redirects\<rparr>)))))))))))"


section \<open>JSON text\<close>

subsection \<open>JSON.stringify\<close>

definition digit_char :: "int \<Rightarrow> char" where
  "digit_char d = char_of (48 + nat d)"

text \<open>The decimal digits of a number that is not negative.\<close>

function show_digits :: "int \<Rightarrow> string" where
  "show_digits n =
     (if n < 10 then [digit_char n] else show_digits (n div 10) @ [digit_char (n mod 10)])"
  by pat_completeness auto
termination
  by (relation "measure nat") auto

declare show_digits.simps [simp del]

text \<open>
  Number::toString on an integer: its decimal digits. These are the digits that
  JavaScript prints for an integer that a number holds exactly, up to \<open>2^53 - 1\<close> in
  magnitude; \<open>JSON_parse\<close> gives no number beyond that.
\<close>

definition show_int :: "int \<Rightarrow> string" where
  "show_int i = (if i < 0 then CHR ''-'' # show_digits (- i) else show_digits i)"

definition hex_char :: "nat \<Rightarrow> char" where
  "hex_char d = (if d < 10 then char_of (48 + d) else char_of (87 + d))"

text \<open>
  QuoteJSONString: the quote, the backslash and the control characters are escaped,
  every other code unit below 256 is copied.
\<close>

definition escape_char :: "char \<Rightarrow> string" where
  "escape_char c =
     (if c = CHR 0x08 then [CHR 0x5C, CHR ''b'']
      else if c = CHR 0x09 then [CHR 0x5C, CHR ''t'']
      else if c = CHR 0x0A then [CHR 0x5C, CHR ''n'']
      else if c = CHR 0x0C then [CHR 0x5C, CHR ''f'']
      else if c = CHR 0x0D then [CHR 0x5C, CHR ''r'']
      else if c = CHR 0x22 then [CHR 0x5C, CHR 0x22]
      else if c = CHR 0x5C then [CHR 0x5C, CHR 0x5C]
      else if (of_char c :: nat) < 32
        then [CHR 0x5C, CHR ''u'', CHR ''0'', CHR ''0'',
              hex_char (of_char c div 16), hex_char (of_char c mod 16)]
      else [c])"

definition quote :: "string \<Rightarrow> string" where
  "quote s = CHR 0x22 # concat (map escape_char s) @ [CHR 0x22]"

fun join :: "'a list \<Rightarrow> 'a list list \<Rightarrow> 'a list" where
  "join sep [] = []"
| "join sep [x] = x"
| "join sep (x # y # ys) = x @ sep @ join sep (y # ys)"

text \<open>
  SerializeJSONProperty with a gap (\<open>gap = []\<close> for \<^verbatim>\<open>JSON.stringify(v)\<close>, two spaces
  for \<^verbatim>\<open>JSON.stringify(v, null, 2)\<close>); \<open>ind\<close> is the current indentation.
\<close>

fun serialize :: "string \<Rightarrow> string \<Rightarrow> json \<Rightarrow> string" where
  "serialize gap ind JNull = ''null''"
| "serialize gap ind (JBool b) = (if b then ''true'' else ''false'')"
| "serialize gap ind (JNum n) = show_int n"
| "serialize gap ind (JStr s) = quote s"
| "serialize gap ind (JArr xs) =
     (if xs = [] then ''[]''
      else if gap = [] then ''['' @ join '','' (map (serialize gap ind) xs) @ '']''
      else ''['' @ ''\<newline>'' @ (ind @ gap)
           @ join ('','' @ ''\<newline>'' @ (ind @ gap)) (map (serialize gap (ind @ gap)) xs)
           @ ''\<newline>'' @ ind @ '']'')"
| "serialize gap ind (JObj ps) =
     (if ps = [] then ''{}''
      else if gap = []
        then ''{'' @ join '','' (map (\<lambda>(k, v). quote k @ '':'' @ serialize gap ind v) ps) @ ''}''
      else ''{'' @ ''\<newline>'' @ (ind @ gap)
           @ join ('','' @ ''\<newline>'' @ (ind @ gap))
               (map (\<lambda>(k, v). quote k @ '': '' @ serialize gap (ind @ gap) v) ps)
           @ ''\<newline>'' @ ind @ ''}'')"


definition JSON_stringify2 :: "json \<Rightarrow> string" where
  "JSON_stringify2 v = serialize ''  '' [] v"


subsection \<open>JSON.parse\<close>

text \<open>
  The text is cut into tokens, and a stack automaton builds the value from the tokens.
  A number literal with a fraction or an exponent, an integer outside the range where a
  double is exact, and an escape for a code unit above 255 are \<open>Unmodelled\<close>.
\<close>

datatype token =
    LBrace | RBrace | LBrack | RBrack | Colon | Comma
  | TStr string | TNum int | TTrue | TFalse | TNull

definition is_ws :: "char \<Rightarrow> bool" where
  "is_ws c = (c = CHR '' '' \<or> c = CHR 0x09 \<or> c = CHR 0x0A \<or> c = CHR 0x0D)"

definition is_digit :: "char \<Rightarrow> bool" where
  "is_digit c = (48 \<le> (of_char c :: nat) \<and> (of_char c :: nat) \<le> 57)"

definition digit_val :: "char \<Rightarrow> int" where
  "digit_val c = int (of_char c) - 48"

definition int_of_digits :: "string \<Rightarrow> int" where
  "int_of_digits ds = foldl (\<lambda>a d. 10 * a + digit_val d) 0 ds"

definition hex_val :: "char \<Rightarrow> nat option" where
  "hex_val c =
     (let n = (of_char c :: nat) in
      if 48 \<le> n \<and> n \<le> 57 then Some (n - 48)
      else if 97 \<le> n \<and> n \<le> 102 then Some (n - 87)
      else if 65 \<le> n \<and> n \<le> 70 then Some (n - 55)
      else None)"

definition hex4 :: "string \<Rightarrow> nat option" where
  "hex4 s =
     (case map hex_val s of
        [Some a, Some b, Some c, Some d] \<Rightarrow> Some (((a * 16 + b) * 16 + c) * 16 + d)
      | _ \<Rightarrow> None)"

definition unescape :: "char \<Rightarrow> char option" where
  "unescape e =
     (if e = CHR 0x22 then Some (CHR 0x22)
      else if e = CHR 0x5C then Some (CHR 0x5C)
      else if e = CHR ''/'' then Some (CHR ''/'')
      else if e = CHR ''b'' then Some (CHR 0x08)
      else if e = CHR ''f'' then Some (CHR 0x0C)
      else if e = CHR ''n'' then Some (CHR 0x0A)
      else if e = CHR ''r'' then Some (CHR 0x0D)
      else if e = CHR ''t'' then Some (CHR 0x09)
      else None)"

definition push_char :: "char \<Rightarrow> error + (string \<times> string) \<Rightarrow> error + (string \<times> string)" where
  "push_char c r = (case r of Inl e \<Rightarrow> Inl e | Inr (s, rest) \<Rightarrow> Inr (c # s, rest))"

text \<open>The characters of a string literal after its opening quote, and the text after it.\<close>

fun scan_string :: "string \<Rightarrow> error + (string \<times> string)" where
  "scan_string [] = Inl SyntaxError"
| "scan_string (c # cs) =
     (if c = CHR 0x22 then Inr ([], cs)
      else if c = CHR 0x5C then
        (case cs of
           [] \<Rightarrow> Inl SyntaxError
         | e # cs' \<Rightarrow>
             if e = CHR ''u'' then
               (case hex4 (take 4 cs') of
                  None \<Rightarrow> Inl SyntaxError
                | Some n \<Rightarrow>
                    if n < 256 then push_char (char_of n) (scan_string (drop 4 cs'))
                    else Inl Unmodelled)
             else
               (case unescape e of
                  None \<Rightarrow> Inl SyntaxError
                | Some ch \<Rightarrow> push_char ch (scan_string cs')))
      else if (of_char c :: nat) < 32 then Inl SyntaxError
      else push_char c (scan_string cs))"

text \<open>A number literal: \<^verbatim>\<open>-?(0|[1-9][0-9]*)\<close>, and the text after it.\<close>

definition scan_number :: "string \<Rightarrow> error + (int \<times> string)" where
  "scan_number s =
     (let neg = (take 1 s = ''-'');
          body = (if neg then drop 1 s else s);
          ds = takeWhile is_digit body;
          rest = dropWhile is_digit body
      in if ds = [] then Inl SyntaxError
         else if 1 < length ds \<and> take 1 ds = ''0'' then Inl SyntaxError
         else if take 1 rest = ''.'' \<or> take 1 rest = ''e'' \<or> take 1 rest = ''E'' then Inl Unmodelled
         else if 9007199254740991 < int_of_digits ds then Inl Unmodelled
         else Inr (if neg then - int_of_digits ds else int_of_digits ds, rest))"

definition cons_token :: "token \<Rightarrow> error + token list \<Rightarrow> error + token list" where
  "cons_token t r = (case r of Inl e \<Rightarrow> Inl e | Inr ts \<Rightarrow> Inr (t # ts))"

lemma scan_string_length:
  "scan_string cs = Inr (s, rest) \<Longrightarrow> length rest < Suc (length cs)"
proof (induction cs arbitrary: s rest rule: scan_string.induct)
  case 1
  then show ?case by simp
next
  case (2 c cs)
  show ?case
  proof (cases "c = CHR 0x22")
    case True
    with 2 show ?thesis by simp
  next
    case quote: False
    show ?thesis
    proof (cases "c = CHR 0x5C")
      case True
      then obtain e cs' where cs: "cs = e # cs'"
        using "2.prems" quote by (cases cs) auto
      show ?thesis
      proof (cases "e = CHR ''u''")
        case u: True
        then obtain n s' where n: "hex4 (take 4 cs') = Some n" "n < 256"
          and r: "scan_string (drop 4 cs') = Inr (s', rest)"
          using "2.prems" quote True cs
          by (auto simp: push_char_def split: option.splits if_splits sum.splits)
        from "2.IH"(1)[OF quote True cs u n(1) n(2) r] show ?thesis
          using cs by simp
      next
        case nu: False
        then obtain ch s' where ch: "unescape e = Some ch"
          and r: "scan_string cs' = Inr (s', rest)"
          using "2.prems" quote True cs
          by (auto simp: push_char_def split: option.splits if_splits sum.splits)
        from "2.IH"(2)[OF quote True cs nu ch r] show ?thesis
          using cs by simp
      qed
    next
      case False
      then obtain s' where c: "\<not> (of_char c :: nat) < 32" and r: "scan_string cs = Inr (s', rest)"
        using "2.prems" quote
        by (auto simp: push_char_def split: option.splits if_splits sum.splits)
      from "2.IH"(3)[OF quote False c r] show ?thesis by simp
    qed
  qed
qed

lemma scan_number_length:
  "scan_number s = Inr (n, rest) \<Longrightarrow> length rest < length s"
proof -
  assume a: "scan_number s = Inr (n, rest)"
  define body where "body = (if take 1 s = ''-'' then drop 1 s else s)"
  from a have ds: "takeWhile is_digit body \<noteq> []" and rest: "rest = dropWhile is_digit body"
    by (auto simp: scan_number_def Let_def body_def split: if_splits)
  have "length (takeWhile is_digit body) + length (dropWhile is_digit body) = length body"
    by (metis length_append takeWhile_dropWhile_id)
  with ds rest have "length rest < length body"
    by (cases "takeWhile is_digit body") auto
  moreover have "length body \<le> length s"
    by (simp add: body_def)
  ultimately show ?thesis by simp
qed

function lex :: "string \<Rightarrow> error + token list" where
  "lex [] = Inr []"
| "lex (c # cs) =
     (if is_ws c then lex cs
      else if c = CHR ''{'' then cons_token LBrace (lex cs)
      else if c = CHR ''}'' then cons_token RBrace (lex cs)
      else if c = CHR ''['' then cons_token LBrack (lex cs)
      else if c = CHR '']'' then cons_token RBrack (lex cs)
      else if c = CHR '':'' then cons_token Colon (lex cs)
      else if c = CHR '','' then cons_token Comma (lex cs)
      else if c = CHR 0x22 then
        (case scan_string cs of
           Inl e \<Rightarrow> Inl e
         | Inr (s, rest) \<Rightarrow> cons_token (TStr s) (lex rest))
      else if c = CHR ''-'' \<or> is_digit c then
        (case scan_number (c # cs) of
           Inl e \<Rightarrow> Inl e
         | Inr (n, rest) \<Rightarrow> cons_token (TNum n) (lex rest))
      else if take 4 (c # cs) = ''true'' then cons_token TTrue (lex (drop 3 cs))
      else if take 5 (c # cs) = ''false'' then cons_token TFalse (lex (drop 4 cs))
      else if take 4 (c # cs) = ''null'' then cons_token TNull (lex (drop 3 cs))
      else Inl SyntaxError)"
  by pat_completeness auto
termination
proof (relation "measure length", goal_cases)
  case 1
  then show ?case by simp
next
  case (9 c cs x s rest)
  then show ?case using scan_string_length[of cs s rest] by simp
next
  case (10 c cs x n rest)
  then show ?case using scan_number_length[of "c # cs" n rest] by simp
qed simp_all


text \<open>
  Creating or assigning the own property \<open>k\<close> of an ordinary object. An existing
  property keeps its place; a new array index (a canonical numeric string below
  \<open>2^32 - 1\<close>) goes among the indices in ascending order, which enumerate first;
  any other new key goes last.
\<close>

definition is_array_index :: "string \<Rightarrow> bool" where
  "is_array_index k =
     (k \<noteq> [] \<and> list_all is_digit k \<and> (k = ''0'' \<or> take 1 k \<noteq> ''0'')
      \<and> int_of_digits k < 4294967295)"

fun insert_index :: "string \<Rightarrow> json \<Rightarrow> (string \<times> json) list \<Rightarrow> (string \<times> json) list" where
  "insert_index k v [] = [(k, v)]"
| "insert_index k v (p # ps) =
     (if is_array_index (fst p) \<and> int_of_digits (fst p) < int_of_digits k
      then p # insert_index k v ps
      else (k, v) # p # ps)"

definition put :: "string \<Rightarrow> json \<Rightarrow> (string \<times> json) list \<Rightarrow> (string \<times> json) list" where
  "put k v ps =
     (if map_of ps k \<noteq> None then AList.update k v ps
      else if is_array_index k then insert_index k v ps
      else ps @ [(k, v)])"

text \<open>
  The automaton: a stack of the arrays and objects that are open, each with what has
  been read of it; the empty stack awaits the top-level value.
\<close>

datatype frame =
    ArrStart
  | ArrValue "json list"
  | ArrComma "json list"
  | ObjStart
  | ObjKey "(string \<times> json) list" string
  | ObjColon "(string \<times> json) list" string
  | ObjValue "(string \<times> json) list"
  | ObjComma "(string \<times> json) list"

datatype pstate = Run "frame list" | Done json

text \<open>A finished value goes to the frame that awaits one.\<close>

fun deliver :: "json \<Rightarrow> frame list \<Rightarrow> pstate option" where
  "deliver v [] = Some (Done v)"
| "deliver v (ArrStart # fs) = Some (Run (ArrValue [v] # fs))"
| "deliver v (ArrComma xs # fs) = Some (Run (ArrValue (xs @ [v]) # fs))"
| "deliver v (ObjColon ps k # fs) = Some (Run (ObjValue (put k v ps) # fs))"
| "deliver v (f # fs) = None"

definition value_token :: "token \<Rightarrow> frame list \<Rightarrow> pstate option" where
  "value_token t fs =
     (case t of
        TNull \<Rightarrow> deliver JNull fs
      | TTrue \<Rightarrow> deliver (JBool True) fs
      | TFalse \<Rightarrow> deliver (JBool False) fs
      | TNum n \<Rightarrow> deliver (JNum n) fs
      | TStr s \<Rightarrow> deliver (JStr s) fs
      | LBrack \<Rightarrow> Some (Run (ArrStart # fs))
      | LBrace \<Rightarrow> Some (Run (ObjStart # fs))
      | _ \<Rightarrow> None)"

fun step :: "pstate \<Rightarrow> token \<Rightarrow> pstate option" where
  "step (Done v) t = None"
| "step (Run []) t = value_token t []"
| "step (Run (ArrStart # fs)) t =
     (if t = RBrack then deliver (JArr []) fs else value_token t (ArrStart # fs))"
| "step (Run (ArrComma xs # fs)) t = value_token t (ArrComma xs # fs)"
| "step (Run (ObjColon ps k # fs)) t = value_token t (ObjColon ps k # fs)"
| "step (Run (ArrValue xs # fs)) t =
     (case t of
        Comma \<Rightarrow> Some (Run (ArrComma xs # fs))
      | RBrack \<Rightarrow> deliver (JArr xs) fs
      | _ \<Rightarrow> None)"
| "step (Run (ObjStart # fs)) t =
     (case t of
        TStr k \<Rightarrow> Some (Run (ObjKey [] k # fs))
      | RBrace \<Rightarrow> deliver (JObj []) fs
      | _ \<Rightarrow> None)"
| "step (Run (ObjComma ps # fs)) t =
     (case t of TStr k \<Rightarrow> Some (Run (ObjKey ps k # fs)) | _ \<Rightarrow> None)"
| "step (Run (ObjKey ps k # fs)) t =
     (case t of Colon \<Rightarrow> Some (Run (ObjColon ps k # fs)) | _ \<Rightarrow> None)"
| "step (Run (ObjValue ps # fs)) t =
     (case t of
        Comma \<Rightarrow> Some (Run (ObjComma ps # fs))
      | RBrace \<Rightarrow> deliver (JObj ps) fs
      | _ \<Rightarrow> None)"

fun run :: "token list \<Rightarrow> pstate \<Rightarrow> pstate option" where
  "run [] st = Some st"
| "run (t # ts) st = (case step st t of None \<Rightarrow> None | Some st' \<Rightarrow> run ts st')"

definition JSON_parse :: "string \<Rightarrow> error + json" where
  "JSON_parse text =
     bind (lex text) (\<lambda>ts.
       case run ts (Run []) of
         Some (Done v) \<Rightarrow> Inr v
       | _ \<Rightarrow> Inl SyntaxError)"

subsection \<open>Reading the manifest\<close>

text \<open>
  \<open>getProjectPathFactory\<close> comes from the utilities of the repository and
  \<open>readFile\<close> from the file system: both are parameters. A file that is absent makes
  \<open>readFile\<close> reject.
\<close>

definition firebaseJsonStuff ::
  "('c \<Rightarrow> string list \<Rightarrow> string) \<Rightarrow> (string \<Rightarrow> string option) \<Rightarrow> 'c \<Rightarrow> string
     \<Rightarrow> error + HostingConfig" where
  "firebaseJsonStuff getProjectPathFactory readFile config distDir =
     (let getProjectPath = getProjectPathFactory config in
      case readFile (getProjectPath [distDir, ''routes-manifest.json'']) of
        None \<Rightarrow> Inl ENOENT
      | Some manifestBuffer \<Rightarrow>
          bind (JSON_parse manifestBuffer) translate_manifest)"


section \<open>The deploy configuration\<close>

text \<open>
  Modelled from the spec: the type \<open>DeployConfig\<close> is declared in the utilities of the
  repository, which are not among the sources at hand. The functions below read its
  field \<open>function\<close> only, with a generation, a name and a region; the field is
  optional (the code asserts it with \<^verbatim>\<open>config.function!\<close>) and a configuration may
  have any further fields.
\<close>

record FunctionTarget =
  gen :: int
  name :: string
  region :: string

record DeployConfig =
  "function" :: "FunctionTarget option"

section \<open>newFunctionsYaml: the function descriptor\<close>

definition newFunctionsYaml :: "'a DeployConfig_scheme \<Rightarrow> error + string" where
  "newFunctionsYaml config =
     (case function config of
        None \<Rightarrow> Inl TypeError
      | Some f \<Rightarrow>
          Inr (JSON_stringify2
            (JObj
              [(''endpoints'',
                  JObj
                    [(name f,
                        JObj
                          [(''platform'', JStr (''gcfv'' @ show_int (gen f))),
                           (''region'', JArr [JStr (region f)]),
                           (''labels'', JObj []),
                           (''httpsTrigger'', JObj []),
                           (''entryPoint'', JStr (name f))])]),
               (''specVersion'', JStr ''v1alpha1''),
               (''requiredAPIs'', JArr [])])))"

section \<open>newServerJs: the text of the server entry point\<close>

definition text_lines :: "string list \<Rightarrow> string" where
  "text_lines ls = join ''\<newline>'' ls"








section \<open>newPackageJson: the patched package manifest\<close>

definition FIREBASE_ADMIN_VERSION :: string where
  "FIREBASE_ADMIN_VERSION = ''^10.0.0''"

definition FIREBASE_FUNCTIONS_VERSION :: string where
  "FIREBASE_FUNCTIONS_VERSION = ''^3.16.0''"

definition COOKIE_VERSION :: string where
  "COOKIE_VERSION = ''^0.4.2''"

definition LRU_CACHE_VERSION :: string where
  "LRU_CACHE_VERSION = ''^7.3.1''"

text \<open>
  \<^verbatim>\<open>{ ...packageJson }\<close>: the own enumerable properties of the argument. An array or
  a string has its indices, any other value that is not an object has none.
\<close>

fun spread :: "json \<Rightarrow> (string \<times> json) list" where
  "spread (JObj ps) = ps"
| "spread (JArr xs) = zip (map (\<lambda>i. show_digits (int i)) [0..<length xs]) xs"
| "spread (JStr s) = zip (map (\<lambda>i. show_digits (int i)) [0..<length s]) (map (\<lambda>c. JStr [c]) s)"
| "spread v = []"

text \<open>
  \<^verbatim>\<open>target[k] ||= v\<close> for a key that is neither an index nor built in; the result is
  the target after the statement. Reading a property of undefined or null throws. An
  object gets the property unless it holds a truthy value. An array gets it too, but a
  property of an array that is not an index is never serialised, and the code does not
  read it again. On a string, a number or a boolean the read gives undefined and the
  assignment throws, the module being in strict mode.
\<close>

definition or_assign :: "json option \<Rightarrow> string \<Rightarrow> json \<Rightarrow> error + json" where
  "or_assign target k v =
     (case target of
        None \<Rightarrow> Inl TypeError
      | Some JNull \<Rightarrow> Inl TypeError
      | Some (JObj ps) \<Rightarrow> Inr (JObj (if truthy (map_of ps k) then ps else put k v ps))
      | Some (JArr xs) \<Rightarrow> Inr (JArr xs)
      | Some (JBool b) \<Rightarrow> Inl TypeError
      | Some (JNum n) \<Rightarrow> Inl TypeError
      | Some (JStr s) \<Rightarrow> Inl TypeError)"

text \<open>
  The object \<open>newPackageJSON\<close> when the function returns. \<open>NODE_VERSION\<close> is computed
  from \<^verbatim>\<open>process.versions.node\<close> when the module is loaded and is a parameter here.
  The dependencies object is shared with the argument; the function returns text only,
  so the model follows the copy.
\<close>

definition newPackageJSON :: "string \<Rightarrow> json \<Rightarrow> error + (string \<times> json) list" where
  "newPackageJSON NODE_VERSION packageJson =
     (let copy = spread packageJson;
          withMain = put ''main'' (JStr ''server.js'') copy
      in
      bind (or_assign (map_of withMain ''dependencies'') ''firebase-admin''
              (JStr FIREBASE_ADMIN_VERSION)) (\<lambda>d1.
      bind (or_assign (Some d1) ''firebase-functions'' (JStr FIREBASE_FUNCTIONS_VERSION)) (\<lambda>d2.
      bind (or_assign (Some d2) ''cookie'' (JStr COOKIE_VERSION)) (\<lambda>d3.
      bind (or_assign (Some d3) ''lru-cache'' (JStr LRU_CACHE_VERSION)) (\<lambda>d4.
      let withDeps = put ''dependencies'' d4 withMain;
          withEngines =
            (if truthy (map_of withDeps ''engines'') then withDeps
             else put ''engines'' (JObj []) withDeps)
      in
      bind (or_assign (map_of withEngines ''engines'') ''node'' (JStr NODE_VERSION)) (\<lambda>e.
      Inr (put ''engines'' e withEngines)))))))"

definition newPackageJson :: "string \<Rightarrow> json \<Rightarrow> error + string" where
  "newPackageJson NODE_VERSION packageJson =
     bind (newPackageJSON NODE_VERSION packageJson) (\<lambda>obj. Inr (JSON_stringify2 (JObj obj)))"


section \<open>The route manifest as the specification describes it\<close>

text \<open>
  The definitions of this section follow the words of the specification and the type
  \<open>Manifest\<close> of the source, not the code of \<open>firebaseJsonStuff\<close>; the theorems
  compare the two.
\<close>

text \<open>A field of a record; a value that is not a record has none.\<close>

definition field :: "json \<Rightarrow> string \<Rightarrow> json option" where
  "field e k = (case e of JObj ps \<Rightarrow> map_of ps k | _ \<Rightarrow> None)"

definition is_record :: "json \<Rightarrow> bool" where
  "is_record e = (case e of JObj ps \<Rightarrow> True | _ \<Rightarrow> False)"

text \<open>An optional sequence whose entries all satisfy \<open>P\<close>.\<close>

definition optional_sequence :: "(json \<Rightarrow> bool) \<Rightarrow> json option \<Rightarrow> bool" where
  "optional_sequence P v =
     (case v of None \<Rightarrow> True | Some (JArr xs) \<Rightarrow> list_all P xs | Some _ \<Rightarrow> False)"

definition sequence_of :: "json option \<Rightarrow> json list" where
  "sequence_of v = (case v of Some (JArr xs) \<Rightarrow> xs | _ \<Rightarrow> [])"

text \<open>A redirect is a record whose flag \<open>internal\<close>, when present, is a boolean.\<close>

definition Redirect :: "json \<Rightarrow> bool" where
  "Redirect e =
     (is_record e \<and>
      (case field e ''internal'' of None \<Rightarrow> True | Some (JBool b) \<Rightarrow> True | Some _ \<Rightarrow> False))"

text \<open>A rewrite is a record whose condition \<open>has\<close>, when present, is a list of conditions.\<close>

definition Rewrite :: "json \<Rightarrow> bool" where
  "Rewrite e =
     (is_record e \<and>
      (case field e ''has'' of None \<Rightarrow> True | Some (JArr hs) \<Rightarrow> True | Some _ \<Rightarrow> False))"

text \<open>
  The part of the type \<open>Manifest\<close> that the translation depends on: optional sequences
  of headers and of redirects, and rewrites that are absent, a flat sequence, or grouped
  by phase with an optional sequence \<open>beforeFiles\<close>.
\<close>

definition Manifest :: "json \<Rightarrow> bool" where
  "Manifest m =
     (is_record m
      \<and> optional_sequence is_record (field m ''headers'')
      \<and> optional_sequence Redirect (field m ''redirects'')
      \<and> (case field m ''rewrites'' of
            None \<Rightarrow> True
          | Some (JArr ws) \<Rightarrow> list_all Rewrite ws
          | Some (JObj g) \<Rightarrow> optional_sequence Rewrite (map_of g ''beforeFiles'')
          | Some _ \<Rightarrow> False))"

text \<open>
  The candidate rewrites: the flat sequence if the rewrites are one, otherwise the phase
  \<open>beforeFiles\<close> alone.
\<close>

definition candidate_rewrites :: "json \<Rightarrow> json list" where
  "candidate_rewrites m =
     (case field m ''rewrites'' of
        Some (JArr ws) \<Rightarrow> ws
      | Some (JObj g) \<Rightarrow> sequence_of (map_of g ''beforeFiles'')
      | _ \<Rightarrow> [])"

definition header_projection :: "json \<Rightarrow> jsobject" where
  "header_projection e = [(''source'', field e ''source''), (''headers'', field e ''headers'')]"

definition redirect_projection :: "json \<Rightarrow> jsobject" where
  "redirect_projection e =
     [(''source'', field e ''source''), (''destination'', field e ''destination''),
      (''type'', field e ''statusCode'')]"

definition rewrite_projection :: "json \<Rightarrow> jsobject" where
  "rewrite_projection e = [(''source'', field e ''source''), (''destination'', field e ''destination'')]"

text \<open>The hosting configuration that the specification describes for a manifest.\<close>

definition hosting_of :: "json \<Rightarrow> HostingConfig" where
  "hosting_of m =
     \<lparr>headers = map header_projection (sequence_of (field m ''headers'')),
      rewrites = map rewrite_projection
                   (filter (\<lambda>e. field e ''has'' = None) (candidate_rewrites m)),
      redirects = map redirect_projection
                    (filter (\<lambda>e. field e ''internal'' \<noteq> Some (JBool True))
                       (sequence_of (field m ''redirects'')))\<rparr>"

text \<open>
  A manifest with other contents in the phases \<open>afterFiles\<close> and \<open>fallback\<close> of its
  grouped rewrites.
\<close>

definition with_late_phases :: "json \<Rightarrow> json \<Rightarrow> json \<Rightarrow> json" where
  "with_late_phases af fb m =
     (case m of
        JObj ps \<Rightarrow>
          (case map_of ps ''rewrites'' of
             Some (JObj g) \<Rightarrow>
               JObj (AList.update ''rewrites''
                      (JObj (AList.update ''afterFiles'' af (AList.update ''fallback'' fb g))) ps)
           | _ \<Rightarrow> m)
      | _ \<Rightarrow> m)"

text \<open>A file system with one routes manifest, and a path rule, for the examples.\<close>

definition example_getProjectPathFactory :: "unit \<Rightarrow> string list \<Rightarrow> string" where
  "example_getProjectPathFactory config parts = join ''/'' (''/app'' # parts)"

definition example_manifest_text :: string where
  "example_manifest_text =
     ''{\"headers\": [{\"source\": \"/h\", \"regex\": \"^/h$\", \"headers\": [{\"key\": \"x\", \"value\": \"1\"}]}],''
     @ '' \"redirects\": [{\"source\": \"/a\", \"destination\": \"/b\", \"statusCode\": 301, \"internal\": false},''
     @ ''               {\"source\": \"/x\", \"destination\": \"/y\", \"statusCode\": 302, \"internal\": true}],''
     @ '' \"rewrites\": {\"beforeFiles\": [{\"source\": \"/s\", \"destination\": \"/d\", \"regex\": \"^/s$\"},''
     @ ''                               {\"source\": \"/c\", \"destination\": \"/e\", \"has\": [{\"type\": \"host\"}]}],''
     @ ''              \"afterFiles\": [{\"source\": \"/late\", \"destination\": \"/l\"}]}}''"

definition example_manifest :: json where
  "example_manifest =
     JObj
       [(''headers'',
           JArr [JObj [(''source'', JStr ''/h''), (''regex'', JStr ''^/h$''),
                       (''headers'', JArr [JObj [(''key'', JStr ''x''), (''value'', JStr ''1'')]])]]),
        (''redirects'',
           JArr [JObj [(''source'', JStr ''/a''), (''destination'', JStr ''/b''),
                       (''statusCode'', JNum 301), (''internal'', JBool False)],
                 JObj [(''source'', JStr ''/x''), (''destination'', JStr ''/y''),
                       (''statusCode'', JNum 302), (''internal'', JBool True)]]),
        (''rewrites'',
           JObj [(''beforeFiles'',
                    JArr [JObj [(''source'', JStr ''/s''), (''destination'', JStr ''/d''),
                                (''regex'', JStr ''^/s$'')],
                          JObj [(''source'', JStr ''/c''), (''destination'', JStr ''/e''),
                                (''has'', JArr [JObj [(''type'', JStr ''host'')]])]]),
                 (''afterFiles'',
                    JArr [JObj [(''source'', JStr ''/late''), (''destination'', JStr ''/l'')]])])]"

text \<open>A text that is not JSON, and a JSON text that is not a manifest.\<close>

definition broken_manifest_text :: string where
  "broken_manifest_text = ''{\"headers\": [''"

definition unshaped_manifest_text :: string where
  "unshaped_manifest_text = ''{\"rewrites\": 5}''"

text \<open>JSON texts that are not manifests and on which the translation throws.\<close>

definition null_manifest_text :: string where
  "null_manifest_text = ''null''"

definition scalar_headers_text :: string where
  "scalar_headers_text = ''{\"headers\": 5}''"

definition null_entry_text :: string where
  "null_entry_text = ''{\"redirects\": [null]}''"

definition text_phase_text :: string where
  "text_phase_text = ''{\"rewrites\": {\"beforeFiles\": \"later\"}}''"

definition example_readFile :: "string \<Rightarrow> string option" where
  "example_readFile path =
     (if path = ''/app/.next/routes-manifest.json'' then Some example_manifest_text
      else if path = ''/app/broken/routes-manifest.json'' then Some broken_manifest_text
      else if path = ''/app/unshaped/routes-manifest.json'' then Some unshaped_manifest_text
      else if path = ''/app/null/routes-manifest.json'' then Some null_manifest_text
      else if path = ''/app/scalar/routes-manifest.json'' then Some scalar_headers_text
      else if path = ''/app/entry/routes-manifest.json'' then Some null_entry_text
      else if path = ''/app/phase/routes-manifest.json'' then Some text_phase_text
      else None)"

section \<open>Properties of firebaseJsonStuff\<close>

lemma bind_Inr [simp]: "bind (Inr x) f = f x"
  by (simp add: bind_def)

lemma bind_Inl [simp]: "bind (Inl e) f = Inl e"
  by (simp add: bind_def)

lemma mapM_total: "(\<And>x. x \<in> set xs \<Longrightarrow> f x = Inr (g x)) \<Longrightarrow> mapM f xs = Inr (map g xs)"
  by (induction xs) simp_all

lemma filterM_total:
  "(\<And>x. x \<in> set xs \<Longrightarrow> p x = Inr (q x)) \<Longrightarrow> filterM p xs = Inr (filter q xs)"
  by (induction xs) simp_all

lemma get_record: "is_record e \<Longrightarrow> get e k = Inr (field e k)"
  by (cases e) (simp_all add: is_record_def field_def)

lemma header_callback_record: "is_record e \<Longrightarrow> header_callback e = Inr (header_projection e)"
  by (simp add: header_callback_def header_projection_def get_record)

lemma redirect_callback_record:
  "is_record e \<Longrightarrow> redirect_callback e = Inr (redirect_projection e)"
  by (simp add: redirect_callback_def redirect_projection_def get_record)

lemma redirect_filter_Redirect:
  "Redirect e \<Longrightarrow> redirect_filter e = Inr (field e ''internal'' \<noteq> Some (JBool True))"
  by (auto simp: Redirect_def redirect_filter_def get_record split: option.splits json.splits)

lemma rewrite_callback_Rewrite:
  "Rewrite e \<Longrightarrow>
   rewrite_callback e =
     Inr (if field e ''has'' = None then Some (rewrite_projection e) else None)"
  by (auto simp: Rewrite_def rewrite_callback_def rewrite_projection_def get_record
           split: option.splits json.splits)

lemma keep_defined:
  "map the (filter (\<lambda>it. \<exists>y. it = Some y) (map (\<lambda>e. if P e then Some (f e) else None) xs))
     = map f (filter P xs)"
  by (induction xs) simp_all

lemma list_all_filter: "list_all P xs \<Longrightarrow> list_all P (filter Q xs)"
  by (induction xs) simp_all

lemma headers_step:
  "optional_sequence is_record v \<Longrightarrow>
   bind (array_receiver (default_empty v)) (\<lambda>hs. bind (mapM header_callback hs) k)
     = k (map header_projection (sequence_of v))"
proof -
  assume a: "optional_sequence is_record v"
  then have r: "array_receiver (default_empty v) = Inr (sequence_of v)"
    by (auto simp: optional_sequence_def default_empty_def sequence_of_def
             split: option.splits json.splits)
  from a have "list_all is_record (sequence_of v)"
    by (auto simp: optional_sequence_def sequence_of_def split: option.splits json.splits)
  then have "mapM header_callback (sequence_of v) = Inr (map header_projection (sequence_of v))"
    by (intro mapM_total header_callback_record) (simp add: list_all_iff)
  with r show ?thesis by simp
qed

lemma redirects_step:
  "optional_sequence Redirect v \<Longrightarrow>
   bind (array_receiver (default_empty v)) (\<lambda>rs.
     bind (filterM redirect_filter rs) (\<lambda>kept. bind (mapM redirect_callback kept) k))
     = k (map redirect_projection
            (filter (\<lambda>e. field e ''internal'' \<noteq> Some (JBool True)) (sequence_of v)))"
proof -
  assume a: "optional_sequence Redirect v"
  then have r: "array_receiver (default_empty v) = Inr (sequence_of v)"
    by (auto simp: optional_sequence_def default_empty_def sequence_of_def
             split: option.splits json.splits)
  from a have all: "list_all Redirect (sequence_of v)"
    by (auto simp: optional_sequence_def sequence_of_def split: option.splits json.splits)
  then have f: "filterM redirect_filter (sequence_of v)
      = Inr (filter (\<lambda>e. field e ''internal'' \<noteq> Some (JBool True)) (sequence_of v))"
    by (intro filterM_total redirect_filter_Redirect) (simp add: list_all_iff)
  from all have "list_all is_record
      (filter (\<lambda>e. field e ''internal'' \<noteq> Some (JBool True)) (sequence_of v))"
    by (intro list_all_filter) (simp add: list_all_iff Redirect_def)
  then have "mapM redirect_callback
        (filter (\<lambda>e. field e ''internal'' \<noteq> Some (JBool True)) (sequence_of v))
      = Inr (map redirect_projection
          (filter (\<lambda>e. field e ''internal'' \<noteq> Some (JBool True)) (sequence_of v)))"
    by (intro mapM_total redirect_callback_record) (simp add: list_all_iff)
  with r f show ?thesis by simp
qed

lemma rewrites_list:
  "list_all Rewrite ws \<Longrightarrow>
   bind (mapM rewrite_callback ws) k
     = k (map (\<lambda>e. if field e ''has'' = None then Some (rewrite_projection e) else None) ws)"
proof -
  assume "list_all Rewrite ws"
  then have "mapM rewrite_callback ws
      = Inr (map (\<lambda>e. if field e ''has'' = None then Some (rewrite_projection e) else None) ws)"
    by (intro mapM_total rewrite_callback_Rewrite) (simp add: list_all_iff)
  then show ?thesis by simp
qed

lemma toUse_Manifest:
  "Manifest m \<Longrightarrow>
   nextJsRewritesToUse (default_empty (field m ''rewrites'')) = Inr (JArr (candidate_rewrites m))
   \<and> list_all Rewrite (candidate_rewrites m)"
  by (auto simp: Manifest_def nextJsRewritesToUse_def default_empty_def candidate_rewrites_def
                 optional_sequence_def sequence_of_def or_else_def
           split: option.splits json.splits)

lemma translate_manifest_Manifest:
  assumes "Manifest m"
  shows "translate_manifest m = Inr (hosting_of m)"
proof -
  from assms have rec: "is_record m"
    and h: "optional_sequence is_record (field m ''headers'')"
    and r: "optional_sequence Redirect (field m ''redirects'')"
    by (simp_all add: Manifest_def)
  note w = toUse_Manifest[OF assms]
  show ?thesis
    unfolding translate_manifest_def
    by (simp add: get_record[OF rec] Let_def headers_step[OF h] redirects_step[OF r] w
                  rewrites_list keep_defined hosting_of_def)
qed

lemma firebaseJsonStuff_Manifest:
  assumes "readFile (getProjectPathFactory config [distDir, ''routes-manifest.json'']) = Some text"
    and "JSON_parse text = Inr m"
    and "Manifest m"
  shows "firebaseJsonStuff getProjectPathFactory readFile config distDir = Inr (hosting_of m)"
  using assms by (simp add: firebaseJsonStuff_def translate_manifest_Manifest)

lemma example_manifest_parse: "JSON_parse example_manifest_text = Inr example_manifest"
  unfolding example_manifest_text_def example_manifest_def by code_simp

lemma example_manifest_Manifest: "Manifest example_manifest"
  unfolding example_manifest_def by code_simp

lemma example_readFile_manifest:
  "example_readFile (example_getProjectPathFactory () [''.next'', ''routes-manifest.json''])
     = Some example_manifest_text"
  by (simp add: example_readFile_def example_getProjectPathFactory_def)


lemma with_late_phases_Manifest: "Manifest m \<Longrightarrow> Manifest (with_late_phases af fb m)"
  by (auto simp: Manifest_def with_late_phases_def is_record_def field_def update_conv'
           split: json.splits option.splits)

lemma with_late_phases_candidates:
  "candidate_rewrites (with_late_phases af fb m) = candidate_rewrites m"
  by (auto simp: candidate_rewrites_def with_late_phases_def field_def update_conv'
           split: json.splits option.splits)

text \<open>
  C7: for every route manifest, the headers of the result are the headers of the
  manifest in the same number and order, each entry projected to exactly its
  \<open>source\<close> and its \<open>headers\<close>; the field \<open>regex\<close> is dropped.
\<close>

theorem C7_headers_projected:
  assumes "readFile (getProjectPathFactory config [distDir, ''routes-manifest.json'']) = Some text"
    and "JSON_parse text = Inr m"
    and "Manifest m"
  shows "\<exists>out. firebaseJsonStuff getProjectPathFactory readFile config distDir = Inr out
           \<and> length (headers out) = length (sequence_of (field m ''headers''))
           \<and> headers out =
               map (\<lambda>e. [(''source'', field e ''source''), (''headers'', field e ''headers'')])
                 (sequence_of (field m ''headers''))"
  using firebaseJsonStuff_Manifest[where readFile = readFile and getProjectPathFactory = getProjectPathFactory
      and config = config and distDir = distDir, OF assms]
  by (simp add: hosting_of_def header_projection_def)

theorem C7_headers_projected_witness:
  "example_readFile (example_getProjectPathFactory () [''.next'', ''routes-manifest.json''])
     = Some example_manifest_text
   \<and> JSON_parse example_manifest_text = Inr example_manifest
   \<and> Manifest example_manifest
   \<and> (\<exists>out. firebaseJsonStuff example_getProjectPathFactory example_readFile () ''.next'' = Inr out
          \<and> headers out =
              [[(''source'', Some (JStr ''/h'')),
                (''headers'', Some (JArr [JObj [(''key'', JStr ''x''), (''value'', JStr ''1'')]]))]])"
proof -
  have ev: "map (\<lambda>e. [(''source'', field e ''source''), (''headers'', field e ''headers'')])
        (sequence_of (field example_manifest ''headers''))
      = [[(''source'', Some (JStr ''/h'')),
          (''headers'', Some (JArr [JObj [(''key'', JStr ''x''), (''value'', JStr ''1'')]]))]]"
    by (simp add: example_manifest_def sequence_of_def field_def)
  from C7_headers_projected[where readFile = example_readFile
          and getProjectPathFactory = example_getProjectPathFactory and config = "()"
          and distDir = "''.next''", OF example_readFile_manifest example_manifest_parse
          example_manifest_Manifest]
  obtain out where
    o: "firebaseJsonStuff example_getProjectPathFactory example_readFile () ''.next'' = Inr out"
    and v: "headers out = map (\<lambda>e. [(''source'', field e ''source''), (''headers'', field e ''headers'')])
        (sequence_of (field example_manifest ''headers''))"
    by blast
  from v ev have "headers out = [[(''source'', Some (JStr ''/h'')),
          (''headers'', Some (JArr [JObj [(''key'', JStr ''x''), (''value'', JStr ''1'')]]))]]"
    by simp
  with o show ?thesis
    using example_readFile_manifest example_manifest_parse example_manifest_Manifest
    by (intro conjI exI[of _ out]) simp_all
qed

text \<open>
  C1: for every route manifest, the redirects of the result contain no entry whose
  redirect is flagged \<open>internal = true\<close> and contain every other redirect of the
  manifest, in the order of the manifest, projected to exactly \<open>source\<close>,
  \<open>destination\<close> and \<open>type\<close>, where \<open>type\<close> is the status code of the entry.
\<close>

theorem C1_redirects_filtered:
  assumes "readFile (getProjectPathFactory config [distDir, ''routes-manifest.json'']) = Some text"
    and "JSON_parse text = Inr m"
    and "Manifest m"
  shows "\<exists>out. firebaseJsonStuff getProjectPathFactory readFile config distDir = Inr out
           \<and> redirects out =
               map (\<lambda>e. [(''source'', field e ''source''),
                         (''destination'', field e ''destination''),
                         (''type'', field e ''statusCode'')])
                 (filter (\<lambda>e. field e ''internal'' \<noteq> Some (JBool True))
                    (sequence_of (field m ''redirects'')))"
  using firebaseJsonStuff_Manifest[where readFile = readFile and getProjectPathFactory = getProjectPathFactory
      and config = config and distDir = distDir, OF assms]
  by (simp add: hosting_of_def redirect_projection_def)

theorem C1_redirects_filtered_witness:
  "example_readFile (example_getProjectPathFactory () [''.next'', ''routes-manifest.json''])
     = Some example_manifest_text
   \<and> JSON_parse example_manifest_text = Inr example_manifest
   \<and> Manifest example_manifest
   \<and> (\<exists>out. firebaseJsonStuff example_getProjectPathFactory example_readFile () ''.next'' = Inr out
          \<and> redirects out =
              [[(''source'', Some (JStr ''/a'')), (''destination'', Some (JStr ''/b'')),
                (''type'', Some (JNum 301))]])"
proof -
  have ev: "map (\<lambda>e. [(''source'', field e ''source''),
                 (''destination'', field e ''destination''),
                 (''type'', field e ''statusCode'')])
        (filter (\<lambda>e. field e ''internal'' \<noteq> Some (JBool True))
           (sequence_of (field example_manifest ''redirects'')))
      = [[(''source'', Some (JStr ''/a'')), (''destination'', Some (JStr ''/b'')),
          (''type'', Some (JNum 301))]]"
    by (simp add: example_manifest_def sequence_of_def field_def)
  from C1_redirects_filtered[where readFile = example_readFile
          and getProjectPathFactory = example_getProjectPathFactory and config = "()"
          and distDir = "''.next''", OF example_readFile_manifest example_manifest_parse
          example_manifest_Manifest]
  obtain out where
    o: "firebaseJsonStuff example_getProjectPathFactory example_readFile () ''.next'' = Inr out"
    and v: "redirects out = map (\<lambda>e. [(''source'', field e ''source''),
                 (''destination'', field e ''destination''),
                 (''type'', field e ''statusCode'')])
        (filter (\<lambda>e. field e ''internal'' \<noteq> Some (JBool True))
           (sequence_of (field example_manifest ''redirects'')))"
    by blast
  from v ev have "redirects out = [[(''source'', Some (JStr ''/a'')), (''destination'', Some (JStr ''/b'')),
          (''type'', Some (JNum 301))]]"
    by simp
  with o show ?thesis
    using example_readFile_manifest example_manifest_parse example_manifest_Manifest
    by (intro conjI exI[of _ out]) simp_all
qed

text \<open>
  C2: for every route manifest, the candidate rewrites are the flat sequence of rewrites
  if the rewrites are a sequence, and otherwise the phase \<open>beforeFiles\<close> only: the
  phases \<open>afterFiles\<close> and \<open>fallback\<close> never contribute. Every candidate with a
  condition \<open>has\<close> is absent from the result, and every other candidate appears, in the
  order of the manifest, as exactly \<open>source\<close> and \<open>destination\<close>.
\<close>

theorem C2_rewrites_selected:
  assumes "readFile (getProjectPathFactory config [distDir, ''routes-manifest.json'']) = Some text"
    and "JSON_parse text = Inr m"
    and "Manifest m"
  shows "\<exists>out. firebaseJsonStuff getProjectPathFactory readFile config distDir = Inr out
           \<and> rewrites out =
               map (\<lambda>e. [(''source'', field e ''source''),
                         (''destination'', field e ''destination'')])
                 (filter (\<lambda>e. field e ''has'' = None) (candidate_rewrites m))
           \<and> (\<forall>af fb. \<exists>out'. translate_manifest (with_late_phases af fb m) = Inr out'
                  \<and> rewrites out' = rewrites out)"
proof -
  have "translate_manifest (with_late_phases af fb m) = Inr (hosting_of (with_late_phases af fb m))"
    for af fb
    using with_late_phases_Manifest[OF assms(3)] by (rule translate_manifest_Manifest)
  moreover have "rewrites (hosting_of (with_late_phases af fb m)) = rewrites (hosting_of m)"
    for af fb
    by (simp add: hosting_of_def with_late_phases_candidates)
  ultimately show ?thesis
    using firebaseJsonStuff_Manifest[where readFile = readFile and getProjectPathFactory = getProjectPathFactory
      and config = config and distDir = distDir, OF assms]
    by (simp add: hosting_of_def rewrite_projection_def)
qed

theorem C2_rewrites_selected_witness:
  "example_readFile (example_getProjectPathFactory () [''.next'', ''routes-manifest.json''])
     = Some example_manifest_text
   \<and> JSON_parse example_manifest_text = Inr example_manifest
   \<and> Manifest example_manifest
   \<and> (\<exists>out. firebaseJsonStuff example_getProjectPathFactory example_readFile () ''.next'' = Inr out
          \<and> rewrites out = [[(''source'', Some (JStr ''/s'')), (''destination'', Some (JStr ''/d''))]])"
proof -
  have ev: "map (\<lambda>e. [(''source'', field e ''source''),
                 (''destination'', field e ''destination'')])
        (filter (\<lambda>e. field e ''has'' = None) (candidate_rewrites example_manifest))
      = [[(''source'', Some (JStr ''/s'')), (''destination'', Some (JStr ''/d''))]]"
    by (simp add: example_manifest_def candidate_rewrites_def sequence_of_def field_def)
  from C2_rewrites_selected[where readFile = example_readFile
          and getProjectPathFactory = example_getProjectPathFactory and config = "()"
          and distDir = "''.next''", OF example_readFile_manifest example_manifest_parse
          example_manifest_Manifest]
  obtain out where
    o: "firebaseJsonStuff example_getProjectPathFactory example_readFile () ''.next'' = Inr out"
    and v: "rewrites out = map (\<lambda>e. [(''source'', field e ''source''),
                 (''destination'', field e ''destination'')])
        (filter (\<lambda>e. field e ''has'' = None) (candidate_rewrites example_manifest))"
    by blast
  from v ev have "rewrites out = [[(''source'', Some (JStr ''/s'')), (''destination'', Some (JStr ''/d''))]]"
    by simp
  with o show ?thesis
    using example_readFile_manifest example_manifest_parse example_manifest_Manifest
    by (intro conjI exI[of _ out]) simp_all
qed


subsection \<open>Failures\<close>

lemma bind_eq_Inl: "bind r f = Inl e \<longleftrightarrow> r = Inl e \<or> (\<exists>x. r = Inr x \<and> f x = Inl e)"
  by (cases r) simp_all

lemma bind_eq_Inr: "bind r f = Inr y \<longleftrightarrow> (\<exists>x. r = Inr x \<and> f x = Inr y)"
  by (cases r) simp_all

lemma get_error: "get v k = Inl e \<Longrightarrow> e = TypeError"
  by (cases v) simp_all

lemma array_receiver_error: "array_receiver v = Inl e \<Longrightarrow> e = TypeError"
  by (cases v) simp_all

lemma mapM_error: "mapM f xs = Inl e \<Longrightarrow> \<exists>x\<in>set xs. f x = Inl e"
  by (induction xs) (auto split: sum.splits)

lemma filterM_error: "filterM p xs = Inl e \<Longrightarrow> \<exists>x\<in>set xs. p x = Inl e"
  by (induction xs) (auto split: sum.splits)

lemma header_callback_error: "header_callback v = Inl e \<Longrightarrow> e = TypeError"
  by (auto simp: header_callback_def bind_eq_Inl dest: get_error)

lemma redirect_filter_error: "redirect_filter v = Inl e \<Longrightarrow> e = TypeError"
  by (auto simp: redirect_filter_def bind_eq_Inl dest: get_error)

lemma redirect_callback_error: "redirect_callback v = Inl e \<Longrightarrow> e = TypeError"
  by (auto simp: redirect_callback_def bind_eq_Inl dest: get_error)

lemma rewrite_callback_error: "rewrite_callback v = Inl e \<Longrightarrow> e = TypeError"
  by (auto simp: rewrite_callback_def bind_eq_Inl dest: get_error split: if_splits)

lemma nextJsRewritesToUse_error: "nextJsRewritesToUse v = Inl e \<Longrightarrow> e = TypeError"
  by (cases v) (auto simp: nextJsRewritesToUse_def bind_eq_Inl dest: get_error)

lemma translate_manifest_error: "translate_manifest m = Inl e \<Longrightarrow> e = TypeError"
  unfolding translate_manifest_def Let_def bind_eq_Inl
  by (auto dest: get_error array_receiver_error nextJsRewritesToUse_error
        dest!: mapM_error filterM_error
        dest: header_callback_error redirect_filter_error redirect_callback_error
          rewrite_callback_error)


text \<open>
  Where the translation of a parsed value throws. Reading a property of null, calling
  \<^verbatim>\<open>.map\<close> or \<^verbatim>\<open>.filter\<close> on a value that is not a sequence, and destructuring a
  null entry are the operations of \<open>firebaseJsonStuff\<close> that can throw.
\<close>

text \<open>An optional sequence that is present and not a sequence, or has a null entry.\<close>

definition broken_sequence :: "json option \<Rightarrow> bool" where
  "broken_sequence v =
     (case v of None \<Rightarrow> False | Some (JArr xs) \<Rightarrow> JNull \<in> set xs | Some _ \<Rightarrow> True)"

text \<open>
  Rewrites that are null, a sequence with a null entry, or grouped by phase with a
  truthy \<open>beforeFiles\<close> that is not a sequence or has a null entry.
\<close>

definition broken_rewrites :: "json option \<Rightarrow> bool" where
  "broken_rewrites v =
     (case v of
        None \<Rightarrow> False
      | Some JNull \<Rightarrow> True
      | Some (JArr ws) \<Rightarrow> JNull \<in> set ws
      | Some (JObj g) \<Rightarrow>
          truthy (map_of g ''beforeFiles'') \<and> broken_sequence (map_of g ''beforeFiles'')
      | Some _ \<Rightarrow> False)"

definition untranslatable :: "json \<Rightarrow> bool" where
  "untranslatable m =
     (m = JNull
      \<or> broken_sequence (field m ''headers'')
      \<or> broken_sequence (field m ''redirects'')
      \<or> broken_rewrites (field m ''rewrites''))"

lemma get_defined: "e \<noteq> JNull \<Longrightarrow> get e k = Inr (field e k)"
  by (cases e) (simp_all add: field_def)

lemma get_Inr: "get e k = Inr v \<Longrightarrow> e \<noteq> JNull \<and> v = field e k"
  by (cases e) (simp_all add: field_def)

lemma array_receiver_Inr: "array_receiver v = Inr xs \<Longrightarrow> v = JArr xs"
  by (cases v) simp_all

lemma mapM_Inr: "mapM f xs = Inr ys \<Longrightarrow> x \<in> set xs \<Longrightarrow> \<exists>y. f x = Inr y"
  by (induction xs arbitrary: ys) (auto split: sum.splits)

lemma filterM_Inr: "filterM p xs = Inr ys \<Longrightarrow> x \<in> set xs \<Longrightarrow> \<exists>b. p x = Inr b"
  by (induction xs arbitrary: ys) (auto split: sum.splits)

lemma callbacks_null:
  "header_callback JNull = Inl TypeError"
  "redirect_filter JNull = Inl TypeError"
  "rewrite_callback JNull = Inl TypeError"
  by (simp_all add: header_callback_def redirect_filter_def rewrite_callback_def)

lemma callbacks_defined:
  assumes "e \<noteq> JNull"
  shows "header_callback e = Inr (header_projection e)"
    and "redirect_filter e = Inr (\<not> truthy (field e ''internal''))"
    and "redirect_callback e = Inr (redirect_projection e)"
    and "rewrite_callback e
           = Inr (if truthy (field e ''has'') then None else Some (rewrite_projection e))"
  using assms
  by (simp_all add: header_callback_def redirect_filter_def redirect_callback_def
        rewrite_callback_def header_projection_def redirect_projection_def
        rewrite_projection_def get_defined)

lemma sequence_step:
  "array_receiver (default_empty v) = Inr xs \<Longrightarrow> JNull \<notin> set xs \<Longrightarrow> \<not> broken_sequence v"
  by (auto simp: default_empty_def broken_sequence_def split: option.splits dest: array_receiver_Inr)

lemma sequence_defined:
  "\<not> broken_sequence v \<Longrightarrow>
   array_receiver (default_empty v) = Inr (sequence_of v) \<and> JNull \<notin> set (sequence_of v)"
  by (auto simp: default_empty_def broken_sequence_def sequence_of_def
           split: option.splits json.splits)

lemma phase_defined:
  "\<not> (truthy b \<and> broken_sequence b) \<Longrightarrow> \<exists>ws. or_else b (JArr []) = JArr ws \<and> JNull \<notin> set ws"
  by (cases b) (auto simp: or_else_def broken_sequence_def split: json.splits)

lemma phase_step:
  "or_else b (JArr []) = JArr ws \<Longrightarrow> JNull \<notin> set ws \<Longrightarrow> \<not> (truthy b \<and> broken_sequence b)"
  by (cases b) (auto simp: or_else_def broken_sequence_def split: json.splits if_splits)

lemma rewrites_step:
  assumes "nextJsRewritesToUse (default_empty v) = Inr u" and "array_receiver u = Inr ws"
    and "JNull \<notin> set ws"
  shows "\<not> broken_rewrites v"
proof (cases v)
  case None
  then show ?thesis by (simp add: broken_rewrites_def)
next
  case (Some x)
  from assms(2) have u: "u = JArr ws" by (rule array_receiver_Inr)
  show ?thesis
  proof (cases x)
    case (JObj g)
    with Some assms(1) u have "or_else (map_of g ''beforeFiles'') (JArr []) = JArr ws"
      by (simp add: default_empty_def nextJsRewritesToUse_def)
    from phase_step[OF this assms(3)] Some JObj show ?thesis
      by (simp add: broken_rewrites_def)
  qed (use Some assms u in \<open>auto simp: broken_rewrites_def default_empty_def nextJsRewritesToUse_def or_else_def\<close>)
qed

lemma rewrites_defined:
  assumes "\<not> broken_rewrites v"
  shows "\<exists>ws. nextJsRewritesToUse (default_empty v) = Inr (JArr ws) \<and> JNull \<notin> set ws"
proof (cases v)
  case None
  then show ?thesis by (simp add: default_empty_def nextJsRewritesToUse_def)
next
  case (Some x)
  show ?thesis
  proof (cases x)
    case (JObj g)
    with Some assms
    have "\<not> (truthy (map_of g ''beforeFiles'') \<and> broken_sequence (map_of g ''beforeFiles''))"
      by (simp add: broken_rewrites_def)
    from phase_defined[OF this] Some JObj show ?thesis
      by (simp add: default_empty_def nextJsRewritesToUse_def)
  qed (use Some assms in \<open>auto simp: broken_rewrites_def default_empty_def nextJsRewritesToUse_def or_else_def\<close>)
qed

lemma translate_manifest_Inr:
  assumes "translate_manifest m = Inr out"
  shows "\<not> untranslatable m"
proof -
  from assms obtain h rd rw hs hd rs kept u ws mapped where
    g: "get m ''headers'' = Inr h" "get m ''redirects'' = Inr rd" "get m ''rewrites'' = Inr rw"
    and a: "array_receiver (default_empty h) = Inr hs" "mapM header_callback hs = Inr hd"
    and b: "array_receiver (default_empty rd) = Inr rs" "filterM redirect_filter rs = Inr kept"
    and c: "nextJsRewritesToUse (default_empty rw) = Inr u" "array_receiver u = Inr ws"
      "mapM rewrite_callback ws = Inr mapped"
    unfolding translate_manifest_def Let_def bind_eq_Inr by blast
  from g have m: "m \<noteq> JNull" and f: "h = field m ''headers''" "rd = field m ''redirects''"
      "rw = field m ''rewrites''"
    by (auto dest: get_Inr)
  from a(2) have "JNull \<notin> set hs"
    using mapM_Inr[of header_callback hs hd JNull] by (auto simp: callbacks_null)
  with a(1) have 1: "\<not> broken_sequence h" by (rule sequence_step)
  from b(2) have "JNull \<notin> set rs"
    using filterM_Inr[of redirect_filter rs kept JNull] by (auto simp: callbacks_null)
  with b(1) have 2: "\<not> broken_sequence rd" by (rule sequence_step)
  from c(3) have "JNull \<notin> set ws"
    using mapM_Inr[of rewrite_callback ws mapped JNull] by (auto simp: callbacks_null)
  with c(1,2) have 3: "\<not> broken_rewrites rw" by (rule rewrites_step)
  from m 1 2 3 f show ?thesis by (simp add: untranslatable_def)
qed

lemma translate_manifest_defined:
  assumes "\<not> untranslatable m"
  shows "\<exists>out. translate_manifest m = Inr out"
proof -
  from assms have m: "m \<noteq> JNull"
    and h: "\<not> broken_sequence (field m ''headers'')"
    and r: "\<not> broken_sequence (field m ''redirects'')"
    and w: "\<not> broken_rewrites (field m ''rewrites'')"
    by (simp_all add: untranslatable_def)
  note hs = sequence_defined[OF h] and rs = sequence_defined[OF r]
  from rewrites_defined[OF w] obtain ws where
    ws: "nextJsRewritesToUse (default_empty (field m ''rewrites'')) = Inr (JArr ws)"
      "JNull \<notin> set ws"
    by blast
  have 1: "mapM header_callback (sequence_of (field m ''headers''))
      = Inr (map header_projection (sequence_of (field m ''headers'')))"
    using hs by (intro mapM_total callbacks_defined) auto
  have 2: "filterM redirect_filter (sequence_of (field m ''redirects''))
      = Inr (filter (\<lambda>e. \<not> truthy (field e ''internal'')) (sequence_of (field m ''redirects'')))"
    using rs by (intro filterM_total callbacks_defined) auto
  have 3: "mapM redirect_callback
        (filter (\<lambda>e. \<not> truthy (field e ''internal'')) (sequence_of (field m ''redirects'')))
      = Inr (map redirect_projection
          (filter (\<lambda>e. \<not> truthy (field e ''internal'')) (sequence_of (field m ''redirects''))))"
    using rs by (intro mapM_total callbacks_defined) auto
  have 4: "mapM rewrite_callback ws
      = Inr (map (\<lambda>e. if truthy (field e ''has'') then None else Some (rewrite_projection e)) ws)"
    using ws(2) by (intro mapM_total callbacks_defined) auto
  show ?thesis
    unfolding translate_manifest_def
    by (simp add: get_defined[OF m] Let_def hs rs ws 1 2 3 4)
qed

lemma translate_manifest_TypeError:
  "translate_manifest m = Inl TypeError \<longleftrightarrow> untranslatable m"
proof
  assume "translate_manifest m = Inl TypeError"
  then show "untranslatable m" using translate_manifest_defined[of m] by auto
next
  assume r: "untranslatable m"
  show "translate_manifest m = Inl TypeError"
  proof (cases "translate_manifest m")
    case (Inl e)
    then show ?thesis using translate_manifest_error[of m e] by simp
  next
    case (Inr out)
    then show ?thesis using translate_manifest_Inr[of m out] r by simp
  qed
qed

lemma broken_manifest_parse: "JSON_parse broken_manifest_text = Inl SyntaxError"
  unfolding broken_manifest_text_def by code_simp

lemma unshaped_manifest_parse:
  "JSON_parse unshaped_manifest_text = Inr (JObj [(''rewrites'', JNum 5)])"
  unfolding unshaped_manifest_text_def by code_simp

lemma untranslatable_parse:
  "JSON_parse null_manifest_text = Inr JNull"
  "JSON_parse scalar_headers_text = Inr (JObj [(''headers'', JNum 5)])"
  "JSON_parse null_entry_text = Inr (JObj [(''redirects'', JArr [JNull])])"
  "JSON_parse text_phase_text
     = Inr (JObj [(''rewrites'', JObj [(''beforeFiles'', JStr ''later'')])])"
  unfolding null_manifest_text_def scalar_headers_text_def null_entry_text_def
    text_phase_text_def
  by code_simp+

lemma untranslatable_examples:
  "untranslatable JNull"
  "untranslatable (JObj [(''headers'', JNum 5)])"
  "untranslatable (JObj [(''redirects'', JArr [JNull])])"
  "untranslatable (JObj [(''rewrites'', JObj [(''beforeFiles'', JStr ''later'')])])"
  "\<not> untranslatable (JObj [(''rewrites'', JNum 5)])"
  by (simp_all add: untranslatable_def broken_sequence_def broken_rewrites_def field_def)

lemma example_readFile_paths:
  "example_readFile (example_getProjectPathFactory () [''absent'', ''routes-manifest.json'']) = None"
  "example_readFile (example_getProjectPathFactory () [''broken'', ''routes-manifest.json''])
     = Some broken_manifest_text"
  "example_readFile (example_getProjectPathFactory () [''unshaped'', ''routes-manifest.json''])
     = Some unshaped_manifest_text"
  "example_readFile (example_getProjectPathFactory () [''null'', ''routes-manifest.json''])
     = Some null_manifest_text"
  "example_readFile (example_getProjectPathFactory () [''scalar'', ''routes-manifest.json''])
     = Some scalar_headers_text"
  "example_readFile (example_getProjectPathFactory () [''entry'', ''routes-manifest.json''])
     = Some null_entry_text"
  "example_readFile (example_getProjectPathFactory () [''phase'', ''routes-manifest.json''])
     = Some text_phase_text"
  by (simp_all add: example_readFile_def example_getProjectPathFactory_def)

text \<open>
  C8, as stated, fails: the text \<^verbatim>\<open>{"rewrites": 5}\<close> is valid JSON that does not
  have the shape of a manifest, and \<open>firebaseJsonStuff\<close> does not fail on it but
  returns an empty hosting configuration.
\<close>

theorem C8_unshaped_counterexample:
  "JSON_parse unshaped_manifest_text = Inr (JObj [(''rewrites'', JNum 5)])
   \<and> \<not> Manifest (JObj [(''rewrites'', JNum 5)])
   \<and> firebaseJsonStuff example_getProjectPathFactory example_readFile () ''unshaped''
       = Inr \<lparr>headers = [], rewrites = [], redirects = []\<rparr>"
proof -
  have "\<not> Manifest (JObj [(''rewrites'', JNum 5)])"
    by (simp add: Manifest_def field_def)
  moreover have "translate_manifest (JObj [(''rewrites'', JNum 5)])
      = Inr \<lparr>headers = [], rewrites = [], redirects = []\<rparr>"
    by (simp add: translate_manifest_def default_empty_def nextJsRewritesToUse_def or_else_def)
  ultimately show ?thesis
    by (simp add: firebaseJsonStuff_def example_readFile_paths unshaped_manifest_parse)
qed

text \<open>
  C8, amended: \<open>firebaseJsonStuff\<close> fails with the not-found error when the file is
  absent and with a syntax error when its content is not valid JSON. Valid JSON is not
  checked against the shape of a manifest. A manifest of the expected shape gives the
  full result. The call fails with a type error exactly when the parsed value is null,
  when its headers or its redirects are present and not a sequence or have a null
  entry, or when its rewrites are null, a sequence with a null entry, or grouped by
  phase with a truthy \<open>beforeFiles\<close> that is not a sequence or has a null entry.
  Every other value gives a full result with its three sequences, never a part of one.
\<close>

theorem C8_failures:
  "(readFile (getProjectPathFactory config [distDir, ''routes-manifest.json'']) = None \<longrightarrow>
      firebaseJsonStuff getProjectPathFactory readFile config distDir = Inl ENOENT)
   \<and> (\<forall>text. readFile (getProjectPathFactory config [distDir, ''routes-manifest.json'']) = Some text
          \<and> JSON_parse text = Inl SyntaxError \<longrightarrow>
        firebaseJsonStuff getProjectPathFactory readFile config distDir = Inl SyntaxError)
   \<and> (\<forall>text m. readFile (getProjectPathFactory config [distDir, ''routes-manifest.json'']) = Some text
          \<and> JSON_parse text = Inr m \<longrightarrow>
        (Manifest m \<longrightarrow>
           firebaseJsonStuff getProjectPathFactory readFile config distDir = Inr (hosting_of m))
        \<and> (firebaseJsonStuff getProjectPathFactory readFile config distDir = Inl TypeError
             \<longleftrightarrow> untranslatable m)
        \<and> (\<not> untranslatable m \<longrightarrow>
             (\<exists>h w r. firebaseJsonStuff getProjectPathFactory readFile config distDir
                  = Inr \<lparr>headers = h, rewrites = w, redirects = r\<rparr>)))"
proof (intro conjI allI impI)
  assume "readFile (getProjectPathFactory config [distDir, ''routes-manifest.json'']) = None"
  then show "firebaseJsonStuff getProjectPathFactory readFile config distDir = Inl ENOENT"
    by (simp add: firebaseJsonStuff_def)
next
  fix content
  assume "readFile (getProjectPathFactory config [distDir, ''routes-manifest.json'']) = Some content
    \<and> JSON_parse content = Inl SyntaxError"
  then show "firebaseJsonStuff getProjectPathFactory readFile config distDir = Inl SyntaxError"
    by (simp add: firebaseJsonStuff_def)
next
  fix content m
  assume a: "readFile (getProjectPathFactory config [distDir, ''routes-manifest.json'']) = Some content
    \<and> JSON_parse content = Inr m"
  then have r: "firebaseJsonStuff getProjectPathFactory readFile config distDir
      = translate_manifest m"
    by (simp add: firebaseJsonStuff_def)
  {
    assume "Manifest m"
    with r show "firebaseJsonStuff getProjectPathFactory readFile config distDir
        = Inr (hosting_of m)"
      by (simp add: translate_manifest_Manifest)
  }
  show "firebaseJsonStuff getProjectPathFactory readFile config distDir = Inl TypeError
      \<longleftrightarrow> untranslatable m"
    using r by (simp add: translate_manifest_TypeError)
  {
    assume "\<not> untranslatable m"
    then obtain out where "translate_manifest m = Inr out"
      using translate_manifest_defined by blast
    with r show "\<exists>h w r. firebaseJsonStuff getProjectPathFactory readFile config distDir
        = Inr \<lparr>headers = h, rewrites = w, redirects = r\<rparr>"
      by (cases out) simp
  }
qed

theorem C8_failures_witness:
  "firebaseJsonStuff example_getProjectPathFactory example_readFile () ''absent'' = Inl ENOENT
   \<and> firebaseJsonStuff example_getProjectPathFactory example_readFile () ''broken''
       = Inl SyntaxError
   \<and> firebaseJsonStuff example_getProjectPathFactory example_readFile () ''.next''
       = Inr (hosting_of example_manifest)
   \<and> firebaseJsonStuff example_getProjectPathFactory example_readFile () ''null''
       = Inl TypeError
   \<and> firebaseJsonStuff example_getProjectPathFactory example_readFile () ''scalar''
       = Inl TypeError
   \<and> firebaseJsonStuff example_getProjectPathFactory example_readFile () ''entry''
       = Inl TypeError
   \<and> firebaseJsonStuff example_getProjectPathFactory example_readFile () ''phase''
       = Inl TypeError
   \<and> (\<exists>h w r. firebaseJsonStuff example_getProjectPathFactory example_readFile () ''unshaped''
          = Inr \<lparr>headers = h, rewrites = w, redirects = r\<rparr>)"
proof -
  note c = C8_failures[where readFile = example_readFile
          and getProjectPathFactory = example_getProjectPathFactory and config = "()"]
  note e = example_readFile_paths example_readFile_manifest broken_manifest_parse
    example_manifest_parse example_manifest_Manifest unshaped_manifest_parse
    untranslatable_parse untranslatable_examples
  from c[where distDir = "''absent''"]
  have 1: "firebaseJsonStuff example_getProjectPathFactory example_readFile () ''absent''
      = Inl ENOENT"
    using e by simp
  from c[where distDir = "''broken''"]
  have 2: "firebaseJsonStuff example_getProjectPathFactory example_readFile () ''broken''
      = Inl SyntaxError"
    using e by simp
  from c[where distDir = "''.next''"]
  have 3: "firebaseJsonStuff example_getProjectPathFactory example_readFile () ''.next''
      = Inr (hosting_of example_manifest)"
    using e by simp
  from c[where distDir = "''null''"]
  have 4: "firebaseJsonStuff example_getProjectPathFactory example_readFile () ''null''
      = Inl TypeError"
    using e by simp
  from c[where distDir = "''scalar''"]
  have 5: "firebaseJsonStuff example_getProjectPathFactory example_readFile () ''scalar''
      = Inl TypeError"
    using e by simp
  from c[where distDir = "''entry''"]
  have 6: "firebaseJsonStuff example_getProjectPathFactory example_readFile () ''entry''
      = Inl TypeError"
    using e by simp
  from c[where distDir = "''phase''"]
  have 7: "firebaseJsonStuff example_getProjectPathFactory example_readFile () ''phase''
      = Inl TypeError"
    using e by simp
  from c[where distDir = "''unshaped''"]
  have 8: "\<exists>h w r. firebaseJsonStuff example_getProjectPathFactory example_readFile () ''unshaped''
      = Inr \<lparr>headers = h, rewrites = w, redirects = r\<rparr>"
    using e by simp
  from 1 2 3 4 5 6 7 8 show ?thesis by simp
qed

section \<open>JSON.parse reads back what JSON.stringify has written\<close>

text \<open>
  The property keys in the order in which an object enumerates them: no key twice, and
  the array indices first, in ascending order.
\<close>

definition appendable :: "string list \<Rightarrow> string \<Rightarrow> bool" where
  "appendable acc k =
     (k \<notin> set acc
      \<and> (is_array_index k \<longrightarrow>
           list_all (\<lambda>k'. is_array_index k' \<and> int_of_digits k' < int_of_digits k) acc))"

fun keys_from :: "string list \<Rightarrow> string list \<Rightarrow> bool" where
  "keys_from acc [] = True"
| "keys_from acc (k # ks) = (appendable acc k \<and> keys_from (acc @ [k]) ks)"

text \<open>
  The values that JSON.parse produces within the model: integers in the range where a
  double is exact, and objects with their keys in enumeration order.
\<close>

fun wf_json :: "json \<Rightarrow> bool" where
  "wf_json JNull = True"
| "wf_json (JBool b) = True"
| "wf_json (JNum n) = (- 9007199254740991 \<le> n \<and> n \<le> 9007199254740991)"
| "wf_json (JStr s) = True"
| "wf_json (JArr xs) = list_all wf_json xs"
| "wf_json (JObj ps) = (keys_from [] (map fst ps) \<and> list_all (\<lambda>p. wf_json (snd p)) ps)"

fun tokens :: "json \<Rightarrow> token list" where
  "tokens JNull = [TNull]"
| "tokens (JBool b) = [if b then TTrue else TFalse]"
| "tokens (JNum n) = [TNum n]"
| "tokens (JStr s) = [TStr s]"
| "tokens (JArr xs) = LBrack # join [Comma] (map tokens xs) @ [RBrack]"
| "tokens (JObj ps) =
     LBrace # join [Comma] (map (\<lambda>p. TStr (fst p) # Colon # tokens (snd p)) ps) @ [RBrace]"

definition append_tokens :: "token list \<Rightarrow> error + token list \<Rightarrow> error + token list" where
  "append_tokens ts r = (case r of Inl e \<Rightarrow> Inl e | Inr ts' \<Rightarrow> Inr (ts @ ts'))"

lemma append_tokens_simps [simp]:
  "append_tokens [] r = r"
  "append_tokens a (append_tokens b r) = append_tokens (a @ b) r"
  "append_tokens ts (Inr ts') = Inr (ts @ ts')"
  "cons_token t r = append_tokens [t] r"
  by (cases r; simp add: append_tokens_def cons_token_def)+

lemma join_Cons: "join sep (x # xs) = x @ concat (map (\<lambda>y. sep @ y) xs)"
  by (induction xs arbitrary: x) simp_all

text \<open>The automaton on the tokens of a value.\<close>

definition awaits_value :: "frame list \<Rightarrow> bool" where
  "awaits_value fs =
     (case fs of
        [] \<Rightarrow> True
      | ArrStart # _ \<Rightarrow> True
      | ArrComma xs # _ \<Rightarrow> True
      | ObjColon ps k # _ \<Rightarrow> True
      | _ \<Rightarrow> False)"

lemma run_append: "run (a @ b) st = Option.bind (run a st) (run b)"
  by (induction a arbitrary: st) (simp_all split: option.splits)

lemma step_value:
  "awaits_value fs \<Longrightarrow> t \<noteq> RBrack \<Longrightarrow> step (Run fs) t = value_token t fs"
proof (cases fs)
  case Nil
  then show ?thesis by simp
next
  case (Cons f fs')
  assume "awaits_value fs" "t \<noteq> RBrack"
  then show ?thesis
    using Cons by (cases f) (simp_all add: awaits_value_def)
qed

lemma insert_index_last:
  "list_all (\<lambda>k'. is_array_index k' \<and> int_of_digits k' < int_of_digits k) (map fst ps) \<Longrightarrow>
   insert_index k v ps = ps @ [(k, v)]"
  by (induction ps) simp_all

lemma put_appendable: "appendable (map fst ps) k \<Longrightarrow> put k v ps = ps @ [(k, v)]"
proof -
  assume a: "appendable (map fst ps) k"
  then have "map_of ps k = None"
    by (simp add: appendable_def map_of_eq_None_iff)
  with a show ?thesis
    by (auto simp: put_def appendable_def insert_index_last)
qed

lemma run_elements:
  assumes "\<And>y fs ts. y \<in> set ys \<Longrightarrow> awaits_value fs \<Longrightarrow>
             run (tokens y @ ts) (Run fs) = Option.bind (deliver y fs) (run ts)"
  shows "run (concat (map (\<lambda>y. [Comma] @ tokens y) ys) @ ts) (Run (ArrValue acc # fs))
           = run ts (Run (ArrValue (acc @ ys) # fs))"
  using assms
proof (induction ys arbitrary: acc)
  case Nil
  then show ?case by simp
next
  case (Cons y ys)
  have "run (tokens y @ concat (map (\<lambda>y. [Comma] @ tokens y) ys) @ ts) (Run (ArrComma acc # fs))
      = run (concat (map (\<lambda>y. [Comma] @ tokens y) ys) @ ts) (Run (ArrValue (acc @ [y]) # fs))"
    using Cons.prems[of y "ArrComma acc # fs"] by (simp add: awaits_value_def)
  also have "\<dots> = run ts (Run (ArrValue ((acc @ [y]) @ ys) # fs))"
    using Cons.prems by (intro Cons.IH) simp_all
  finally show ?case by simp
qed

lemma run_members:
  assumes "\<And>p fs ts. p \<in> set ps \<Longrightarrow> awaits_value fs \<Longrightarrow>
             run (tokens (snd p) @ ts) (Run fs) = Option.bind (deliver (snd p) fs) (run ts)"
    and "keys_from (map fst acc) (map fst ps)"
  shows "run (concat (map (\<lambda>p. [Comma] @ TStr (fst p) # Colon # tokens (snd p)) ps) @ ts)
             (Run (ObjValue acc # fs))
           = run ts (Run (ObjValue (acc @ ps) # fs))"
  using assms
proof (induction ps arbitrary: acc)
  case Nil
  then show ?case by simp
next
  case (Cons p ps)
  from Cons.prems(2) have ap: "appendable (map fst acc) (fst p)"
    and rest: "keys_from (map fst (acc @ [p])) (map fst ps)"
    by simp_all
  have "run (tokens (snd p) @ concat (map (\<lambda>p. [Comma] @ TStr (fst p) # Colon # tokens (snd p)) ps) @ ts)
          (Run (ObjColon acc (fst p) # fs))
      = run (concat (map (\<lambda>p. [Comma] @ TStr (fst p) # Colon # tokens (snd p)) ps) @ ts)
          (Run (ObjValue (acc @ [p]) # fs))"
    using Cons.prems(1)[of p "ObjColon acc (fst p) # fs"] put_appendable[OF ap, of "snd p"]
    by (simp add: awaits_value_def)
  also have "\<dots> = run ts (Run (ObjValue ((acc @ [p]) @ ps) # fs))"
    using Cons.prems(1) rest by (intro Cons.IH) simp_all
  finally show ?case by simp
qed

lemma deliver_awaits: "awaits_value fs \<Longrightarrow> deliver v fs \<noteq> None"
  by (auto simp: awaits_value_def split: list.splits frame.splits)

lemma run_tokens:
  "wf_json v \<Longrightarrow> awaits_value fs \<Longrightarrow>
   run (tokens v @ ts) (Run fs) = Option.bind (deliver v fs) (run ts)"
proof (induction v arbitrary: fs ts)
  case JNull
  then show ?case
    using deliver_awaits[of fs JNull] by (auto simp: step_value value_token_def)
next
  case (JBool b)
  then show ?case
    using deliver_awaits[of fs "JBool b"] by (auto simp: step_value value_token_def)
next
  case (JNum n)
  then show ?case
    using deliver_awaits[of fs "JNum n"] by (auto simp: step_value value_token_def)
next
  case (JStr s)
  then show ?case
    using deliver_awaits[of fs "JStr s"] by (auto simp: step_value value_token_def)
next
  case (JArr xs)
  show ?case
  proof (cases xs)
    case Nil
    then show ?thesis
      using JArr.prems deliver_awaits[of fs "JArr []"]
      by (auto simp: step_value value_token_def)
  next
    case (Cons x ys)
    have ih: "run (tokens y @ ts') (Run fs') = Option.bind (deliver y fs') (run ts')"
      if "y \<in> set xs" "awaits_value fs'" for y fs' ts'
      using JArr.IH[OF that(1) _ that(2)] JArr.prems(1) that(1) by (simp add: list_all_iff)
    have "run (tokens (JArr xs) @ ts) (Run fs)
        = run (tokens x @ concat (map (\<lambda>y. [Comma] @ tokens y) ys) @ RBrack # ts)
            (Run (ArrStart # fs))"
      using JArr.prems(2) by (simp add: Cons join_Cons step_value value_token_def comp_def)
    also have "\<dots> = run (concat (map (\<lambda>y. [Comma] @ tokens y) ys) @ RBrack # ts)
            (Run (ArrValue [x] # fs))"
      using ih[of x "ArrStart # fs"] by (simp add: Cons awaits_value_def)
    also have "\<dots> = run (RBrack # ts) (Run (ArrValue ([x] @ ys) # fs))"
      using ih by (intro run_elements) (simp_all add: Cons)
    also have "\<dots> = Option.bind (deliver (JArr xs) fs) (run ts)"
      using deliver_awaits[OF JArr.prems(2), of "JArr xs"] by (auto simp: Cons)
    finally show ?thesis .
  qed
next
  case (JObj ps)
  show ?case
  proof (cases ps)
    case Nil
    then show ?thesis
      using JObj.prems deliver_awaits[of fs "JObj []"]
      by (auto simp: step_value value_token_def)
  next
    case (Cons p qs)
    have ih: "run (tokens (snd q) @ ts') (Run fs') = Option.bind (deliver (snd q) fs') (run ts')"
      if "q \<in> set ps" "awaits_value fs'" for q fs' ts'
    proof -
      have "snd q \<in> Basic_BNFs.snds q"
        by (cases q) simp
      moreover from JObj.prems(1) that(1) have "wf_json (snd q)"
        by (simp add: list_all_iff)
      ultimately show ?thesis
        using JObj.IH[OF that(1) _ _ that(2)] by blast
    qed
    from JObj.prems(1) have keys: "appendable [] (fst p)" "keys_from [fst p] (map fst qs)"
      by (simp_all add: Cons)
    have "run (tokens (JObj ps) @ ts) (Run fs)
        = run (tokens (snd p)
                @ concat (map (\<lambda>p. [Comma] @ TStr (fst p) # Colon # tokens (snd p)) qs)
                @ RBrace # ts)
            (Run (ObjColon [] (fst p) # fs))"
      using JObj.prems(2) by (simp add: Cons join_Cons step_value value_token_def comp_def)
    also have "\<dots> = run (concat (map (\<lambda>p. [Comma] @ TStr (fst p) # Colon # tokens (snd p)) qs)
                @ RBrace # ts)
            (Run (ObjValue [p] # fs))"
      using ih[of p "ObjColon [] (fst p) # fs"] put_appendable[of "[]" "fst p" "snd p"] keys(1)
      by (simp add: Cons awaits_value_def)
    also have "\<dots> = run (RBrace # ts) (Run (ObjValue ([p] @ qs) # fs))"
      using ih keys(2) by (intro run_members) (simp_all add: Cons)
    also have "\<dots> = Option.bind (deliver (JObj ps) fs) (run ts)"
      using deliver_awaits[OF JObj.prems(2), of "JObj ps"] by (auto simp: Cons)
    finally show ?thesis .
  qed
qed

text \<open>The scanner on what QuoteJSONString has written.\<close>

lemma hex_val_hex_char: "d < 16 \<Longrightarrow> hex_val (hex_char d) = Some d"
proof -
  assume "d < 16"
  then have "d \<in> {0, 1, 2, 3, 4, 5, 6, 7, 8, 9, 10, 11, 12, 13, 14, 15}"
    by simp arith
  then show ?thesis
    by (auto simp: hex_val_def hex_char_def Let_def)
qed

lemma hex4_control:
  "n < 32 \<Longrightarrow> hex4 (take 4 (CHR ''0'' # CHR ''0'' # hex_char (n div 16) # hex_char (n mod 16) # r))
     = Some n"
proof -
  assume "n < 32"
  then have "n div 16 < 16" by simp
  then show ?thesis
    by (simp add: hex4_def hex_val_hex_char) (simp add: hex_val_def)
qed

lemma scan_escape: "scan_string (escape_char c @ r) = push_char c (scan_string r)"
proof -
  consider (special) "c \<in> {CHR 0x08, CHR 0x09, CHR 0x0A, CHR 0x0C, CHR 0x0D, CHR 0x22, CHR 0x5C}"
    | (control) "c \<notin> {CHR 0x08, CHR 0x09, CHR 0x0A, CHR 0x0C, CHR 0x0D, CHR 0x22, CHR 0x5C}"
        "(of_char c :: nat) < 32"
    | (plain) "c \<notin> {CHR 0x08, CHR 0x09, CHR 0x0A, CHR 0x0C, CHR 0x0D, CHR 0x22, CHR 0x5C}"
        "\<not> (of_char c :: nat) < 32"
    by blast
  then show ?thesis
  proof cases
    case special
    then show ?thesis
      by (auto simp: escape_char_def unescape_def)
  next
    case control
    then have "escape_char c
        = [CHR 0x5C, CHR ''u'', CHR ''0'', CHR ''0'',
           hex_char (of_char c div 16), hex_char (of_char c mod 16)]"
      by (simp add: escape_char_def)
    then show ?thesis
      using control(2) hex4_control[of "of_char c" r] by simp
  next
    case plain
    then show ?thesis
      by (simp add: escape_char_def)
  qed
qed

lemma scan_quoted: "scan_string (concat (map escape_char s) @ CHR 0x22 # rest) = Inr (s, rest)"
  by (induction s) (simp_all add: scan_escape push_char_def)

lemma lex_quote: "lex (quote s @ rest) = append_tokens [TStr s] (lex rest)"
  by (simp add: quote_def scan_quoted is_ws_def)

text \<open>The scanner on what Number::toString has written.\<close>

lemma digit_char_digit: "0 \<le> d \<Longrightarrow> d < 10 \<Longrightarrow> is_digit (digit_char d)"
  by (simp add: is_digit_def digit_char_def)

lemma digit_val_digit_char: "0 \<le> d \<Longrightarrow> d < 10 \<Longrightarrow> digit_val (digit_char d) = d"
  by (simp add: digit_val_def digit_char_def)

lemma digit_char_zero: "0 \<le> d \<Longrightarrow> d < 10 \<Longrightarrow> digit_char d = CHR ''0'' \<longleftrightarrow> d = 0"
proof -
  assume "0 \<le> d" "d < 10"
  then have "digit_val (digit_char d) = d" by (rule digit_val_digit_char)
  moreover have "digit_val (CHR ''0'') = 0" by (simp add: digit_val_def)
  moreover have "digit_char 0 = CHR ''0''" by (simp add: digit_char_def char_of_eq_iff)
  ultimately show ?thesis by metis
qed

lemma show_digits_digits: "0 \<le> n \<Longrightarrow> list_all is_digit (show_digits n)"
proof (induction n rule: show_digits.induct)
  case (1 n)
  show ?case
  proof (cases "n < 10")
    case True
    with 1 show ?thesis by (simp add: show_digits.simps[of n] digit_char_digit)
  next
    case False
    with 1 have "list_all is_digit (show_digits (n div 10))" by simp
    moreover have "is_digit (digit_char (n mod 10))" by (rule digit_char_digit) simp_all
    ultimately show ?thesis using False by (simp add: show_digits.simps[of n])
  qed
qed

lemma show_digits_nonempty: "show_digits n \<noteq> []"
  by (subst show_digits.simps) simp

lemma int_of_digits_snoc: "int_of_digits (ds @ [d]) = 10 * int_of_digits ds + digit_val d"
  by (simp add: int_of_digits_def)

lemma int_of_show_digits: "0 \<le> n \<Longrightarrow> int_of_digits (show_digits n) = n"
proof (induction n rule: show_digits.induct)
  case (1 n)
  show ?case
  proof (cases "n < 10")
    case True
    with 1 show ?thesis
      by (simp add: show_digits.simps[of n] int_of_digits_def digit_val_digit_char)
  next
    case False
    with 1 have "int_of_digits (show_digits (n div 10)) = n div 10" by simp
    moreover have "digit_val (digit_char (n mod 10)) = n mod 10"
      by (rule digit_val_digit_char) simp_all
    ultimately show ?thesis
      using False by (simp add: show_digits.simps[of n] int_of_digits_snoc)
  qed
qed

lemma show_digits_leading: "0 < n \<Longrightarrow> hd (show_digits n) \<noteq> CHR ''0''"
proof (induction n rule: show_digits.induct)
  case (1 n)
  show ?case
  proof (cases "n < 10")
    case True
    with 1 show ?thesis
      by (simp add: show_digits.simps[of n] digit_char_zero)
  next
    case False
    with 1 have "hd (show_digits (n div 10)) \<noteq> CHR ''0''" by simp
    then show ?thesis
      using False by (simp add: show_digits.simps[of n] show_digits_nonempty)
  qed
qed

lemma show_digits_single: "n < 10 \<Longrightarrow> length (show_digits n) = 1"
  by (simp add: show_digits.simps[of n])

text \<open>What may follow a value in a text: nothing, a comma or a new line.\<close>

definition delimited :: "string \<Rightarrow> bool" where
  "delimited rest = (rest = [] \<or> hd rest = CHR '','' \<or> hd rest = CHR 0x0A)"

lemma delimited_not_digit: "delimited rest \<Longrightarrow> rest = [] \<or> \<not> is_digit (hd rest)"
  by (auto simp: delimited_def is_digit_def)

lemma takeWhile_digits:
  "list_all is_digit ds \<Longrightarrow> rest = [] \<or> \<not> is_digit (hd rest) \<Longrightarrow>
   takeWhile is_digit (ds @ rest) = ds \<and> dropWhile is_digit (ds @ rest) = rest"
proof (induction ds)
  case Nil
  then show ?case by (cases rest) auto
next
  case (Cons d ds)
  then show ?case by simp
qed

lemma scan_digits:
  assumes "0 \<le> n" and "delimited rest"
  shows "takeWhile is_digit (show_digits n @ rest) = show_digits n"
    and "dropWhile is_digit (show_digits n @ rest) = rest"
    and "\<not> (1 < length (show_digits n) \<and> take 1 (show_digits n) = ''0'')"
proof -
  from takeWhile_digits[OF show_digits_digits[OF assms(1)] delimited_not_digit[OF assms(2)]]
  show "takeWhile is_digit (show_digits n @ rest) = show_digits n"
    and "dropWhile is_digit (show_digits n @ rest) = rest"
    by simp_all
  show "\<not> (1 < length (show_digits n) \<and> take 1 (show_digits n) = ''0'')"
  proof (cases "n < 10")
    case True
    then show ?thesis by (simp add: show_digits_single)
  next
    case False
    then have "hd (show_digits n) \<noteq> CHR ''0''"
      by (intro show_digits_leading) simp
    then show ?thesis
      using show_digits_nonempty[of n] by (cases "show_digits n") auto
  qed
qed

lemma delimited_take:
  "delimited rest \<Longrightarrow> take 1 rest \<noteq> ''.'' \<and> take 1 rest \<noteq> ''e'' \<and> take 1 rest \<noteq> ''E''"
  by (cases rest) (auto simp: delimited_def)

lemma show_digits_first:
  "0 \<le> n \<Longrightarrow> \<exists>c cs. show_digits n = c # cs \<and> is_digit c"
  using show_digits_digits[of n] show_digits_nonempty[of n]
  by (cases "show_digits n") auto

lemma scan_number_digits:
  assumes "takeWhile is_digit (ds @ rest) = ds" and "dropWhile is_digit (ds @ rest) = rest"
    and "ds \<noteq> []" and "\<not> (1 < length ds \<and> take 1 ds = ''0'')"
    and "delimited rest" and "int_of_digits ds \<le> 9007199254740991"
    and "take 1 ds \<noteq> ''-''"
  shows "scan_number (ds @ rest) = Inr (int_of_digits ds, rest)"
    and "scan_number (CHR ''-'' # ds @ rest) = Inr (- int_of_digits ds, rest)"
proof -
  from assms(3,7) have t: "take 1 (ds @ rest) \<noteq> ''-''"
    by (cases ds) simp_all
  have le: "\<not> 9007199254740991 < int_of_digits ds"
    using assms(6) by simp
  show "scan_number (ds @ rest) = Inr (int_of_digits ds, rest)"
    using t assms(1-4) delimited_take[OF assms(5)] le
    by (simp add: scan_number_def Let_def)
  show "scan_number (CHR ''-'' # ds @ rest) = Inr (- int_of_digits ds, rest)"
    using assms(1-4) delimited_take[OF assms(5)] le
    by (simp add: scan_number_def Let_def)
qed

lemma scan_number_show_int:
  assumes "- 9007199254740991 \<le> n" and "n \<le> 9007199254740991" and "delimited rest"
  shows "scan_number (show_int n @ rest) = Inr (n, rest)"
proof (cases "n < 0")
  case True
  then have m: "0 \<le> - n" "- n \<le> 9007199254740991"
    using assms(1) by simp_all
  note s = scan_digits[OF m(1) assms(3)]
  from show_digits_first[OF m(1)] obtain c cs where c: "show_digits (- n) = c # cs" "is_digit c"
    by blast
  then have t: "take 1 (show_digits (- n)) \<noteq> ''-''"
    by (auto simp: is_digit_def)
  have "scan_number (CHR ''-'' # show_digits (- n) @ rest)
      = Inr (- int_of_digits (show_digits (- n)), rest)"
    using s show_digits_nonempty[of "- n"] assms(3) m(2) t
    by (intro scan_number_digits(2)) (simp_all add: int_of_show_digits[OF m(1)])
  then show ?thesis
    using True by (simp add: show_int_def int_of_show_digits[OF m(1)])
next
  case False
  then have m: "0 \<le> n" by simp
  note s = scan_digits[OF m assms(3)]
  from show_digits_first[OF m] obtain c cs where c: "show_digits n = c # cs" "is_digit c"
    by blast
  then have t: "take 1 (show_digits n) \<noteq> ''-''"
    by (auto simp: is_digit_def)
  have "scan_number (show_digits n @ rest) = Inr (int_of_digits (show_digits n), rest)"
    using s show_digits_nonempty[of n] assms(2,3) t
    by (intro scan_number_digits(1)) (simp_all add: int_of_show_digits[OF m])
  then show ?thesis
    using False by (simp add: show_int_def int_of_show_digits[OF m])
qed

lemma lex_number:
  assumes "- 9007199254740991 \<le> n" and "n \<le> 9007199254740991" and "delimited rest"
  shows "lex (show_int n @ rest) = append_tokens [TNum n] (lex rest)"
proof -
  obtain c cs where c: "show_int n = c # cs" "c = CHR ''-'' \<or> is_digit c"
  proof (cases "n < 0")
    case True
    then show ?thesis using that by (simp add: show_int_def)
  next
    case False
    then have "0 \<le> n" by simp
    from show_digits_first[OF this] show ?thesis
      using that False by (auto simp: show_int_def)
  qed
  from c(2) have d: "\<not> is_ws c" "c \<noteq> CHR ''{''" "c \<noteq> CHR ''}''" "c \<noteq> CHR ''[''"
    "c \<noteq> CHR '']''" "c \<noteq> CHR '':''" "c \<noteq> CHR '',''" "c \<noteq> CHR 0x22"
    by (auto simp: is_digit_def is_ws_def)
  have "lex (c # cs @ rest) = append_tokens [TNum n] (lex rest)"
    using d c(2) scan_number_show_int[OF assms] c(1) by simp
  then show ?thesis using c(1) by simp
qed

text \<open>The scanner on the text of a value.\<close>

lemma lex_ws: "list_all is_ws w \<Longrightarrow> lex (w @ rest) = lex rest"
  by (induction w) simp_all

lemma lex_punctuation:
  "lex (CHR ''{'' # rest) = append_tokens [LBrace] (lex rest)"
  "lex (CHR ''}'' # rest) = append_tokens [RBrace] (lex rest)"
  "lex (CHR ''['' # rest) = append_tokens [LBrack] (lex rest)"
  "lex (CHR '']'' # rest) = append_tokens [RBrack] (lex rest)"
  "lex (CHR '':'' # rest) = append_tokens [Colon] (lex rest)"
  "lex (CHR '','' # rest) = append_tokens [Comma] (lex rest)"
  "lex (CHR '' '' # rest) = lex rest"
  by (simp_all add: is_ws_def)

lemma lex_literals:
  "lex (''null'' @ rest) = append_tokens [TNull] (lex rest)"
  "lex (''true'' @ rest) = append_tokens [TTrue] (lex rest)"
  "lex (''false'' @ rest) = append_tokens [TFalse] (lex rest)"
  by (simp_all add: is_ws_def is_digit_def)

declare lex.simps(2) [simp del]

lemma lex_join:
  assumes "\<And>x r. x \<in> set xs \<Longrightarrow> delimited r \<Longrightarrow> lex (f x @ r) = append_tokens (g x) (lex r)"
    and "list_all is_ws w" and "xs \<noteq> []" and "delimited r"
  shows "lex (join (CHR '','' # w) (map f xs) @ r) = append_tokens (join [Comma] (map g xs)) (lex r)"
  using assms(1,3)
proof (induction xs)
  case Nil
  then show ?case by simp
next
  case (Cons x xs)
  show ?case
  proof (cases xs)
    case Nil
    then show ?thesis using Cons.prems(1)[of x r] assms(4) by simp
  next
    case (Cons y ys)
    have d: "delimited (CHR '','' # w @ join (CHR '','' # w) (map f xs) @ r)"
      by (simp add: delimited_def)
    have "lex (join (CHR '','' # w) (map f xs) @ r)
        = append_tokens (join [Comma] (map g xs)) (lex r)"
      using Cons.prems(1) Cons by (intro Cons.IH) simp_all
    then show ?thesis
      using Cons.prems(1)[of x, OF _ d] Cons by (simp add: lex_punctuation lex_ws[OF assms(2)])
  qed
qed

lemma is_ws_newline: "is_ws (CHR 0x0A)"
  by (simp add: is_ws_def)

lemma lex_serialize:
  assumes "gap \<noteq> []" and "list_all is_ws gap"
  shows "wf_json v \<Longrightarrow> list_all is_ws ind \<Longrightarrow> delimited rest \<Longrightarrow>
         lex (serialize gap ind v @ rest) = append_tokens (tokens v) (lex rest)"
proof (induction v arbitrary: ind rest)
  case JNull
  then show ?case using lex_literals(1)[of rest] by simp
next
  case (JBool b)
  then show ?case using lex_literals(2,3)[of rest] by simp
next
  case (JNum n)
  then show ?case by (simp add: lex_number)
next
  case (JStr s)
  then show ?case by (simp add: lex_quote)
next
  case (JArr xs)
  show ?case
  proof (cases "xs = []")
    case True
    then show ?thesis by (simp add: lex_punctuation)
  next
    case False
    have ws: "list_all is_ws (CHR 0x0A # ind @ gap)" "list_all is_ws (CHR 0x0A # ind)"
      using JArr.prems(2) assms(2) is_ws_newline by simp_all
    have each: "lex (serialize gap (ind @ gap) x @ r) = append_tokens (tokens x) (lex r)"
      if "x \<in> set xs" "delimited r" for x r
    proof -
      have "wf_json x" using JArr.prems(1) that(1) by (simp add: list_all_iff)
      moreover have "list_all is_ws (ind @ gap)" using JArr.prems(2) assms(2) by simp
      ultimately show ?thesis using that by (intro JArr.IH)
    qed
    have d: "delimited (CHR 0x0A # ind @ CHR '']'' # rest)"
      by (simp add: delimited_def)
    have "lex (serialize gap ind (JArr xs) @ rest)
        = append_tokens [LBrack]
            (lex ((CHR 0x0A # ind @ gap)
                  @ join (CHR '','' # CHR 0x0A # ind @ gap) (map (serialize gap (ind @ gap)) xs)
                  @ (CHR 0x0A # ind @ CHR '']'' # rest)))"
      using False assms(1) by (simp add: lex_punctuation)
    also have "\<dots> = append_tokens [LBrack]
            (append_tokens (join [Comma] (map tokens xs))
               (lex ((CHR 0x0A # ind) @ CHR '']'' # rest)))"
      using lex_join[of xs "serialize gap (ind @ gap)" tokens "CHR 0x0A # ind @ gap",
              OF each ws(1) False d]
      by (simp only: lex_ws[OF ws(1)]) simp
    also have "\<dots> = append_tokens (tokens (JArr xs)) (lex rest)"
      by (simp only: lex_ws[OF ws(2)]) (simp add: lex_punctuation)
    finally show ?thesis .
  qed
next
  case (JObj ps)
  show ?case
  proof (cases "ps = []")
    case True
    then show ?thesis by (simp add: lex_punctuation)
  next
    case False
    have ws: "list_all is_ws (CHR 0x0A # ind @ gap)" "list_all is_ws (CHR 0x0A # ind)"
      using JObj.prems(2) assms(2) is_ws_newline by simp_all
    have each: "lex ((case p of (k, v) \<Rightarrow> quote k @ '': '' @ serialize gap (ind @ gap) v) @ r)
        = append_tokens (TStr (fst p) # Colon # tokens (snd p)) (lex r)"
      if "p \<in> set ps" "delimited r" for p r
    proof -
      obtain k v where p: "p = (k, v)" by (cases p)
      have "wf_json v" using JObj.prems(1) that(1) p by (auto simp: list_all_iff)
      moreover have "list_all is_ws (ind @ gap)" using JObj.prems(2) assms(2) by simp
      moreover have "v \<in> Basic_BNFs.snds p" by (simp add: p)
      ultimately have "lex (serialize gap (ind @ gap) v @ r) = append_tokens (tokens v) (lex r)"
        using that by (intro JObj.IH)
      then show ?thesis
        by (simp add: p lex_quote lex_punctuation)
    qed
    have d: "delimited (CHR 0x0A # ind @ CHR ''}'' # rest)"
      by (simp add: delimited_def)
    have "lex (serialize gap ind (JObj ps) @ rest)
        = append_tokens [LBrace]
            (lex ((CHR 0x0A # ind @ gap)
                  @ join (CHR '','' # CHR 0x0A # ind @ gap)
                      (map (\<lambda>(k, v). quote k @ '': '' @ serialize gap (ind @ gap) v) ps)
                  @ (CHR 0x0A # ind @ CHR ''}'' # rest)))"
      using False assms(1) by (simp add: lex_punctuation)
    also have "\<dots> = append_tokens [LBrace]
            (append_tokens (join [Comma] (map (\<lambda>p. TStr (fst p) # Colon # tokens (snd p)) ps))
               (lex ((CHR 0x0A # ind) @ CHR ''}'' # rest)))"
      using lex_join[of ps "\<lambda>(k, v). quote k @ '': '' @ serialize gap (ind @ gap) v"
              "\<lambda>p. TStr (fst p) # Colon # tokens (snd p)" "CHR 0x0A # ind @ gap",
              OF each ws(1) False d]
      by (simp only: lex_ws[OF ws(1)]) simp
    also have "\<dots> = append_tokens (tokens (JObj ps)) (lex rest)"
      by (simp only: lex_ws[OF ws(2)]) (simp add: lex_punctuation)
    finally show ?thesis .
  qed
qed

lemma JSON_parse_stringify2: "wf_json v \<Longrightarrow> JSON_parse (JSON_stringify2 v) = Inr v"
proof -
  assume wf: "wf_json v"
  have "lex (serialize ''  '' [] v @ []) = append_tokens (tokens v) (lex [])"
    using wf by (intro lex_serialize) (simp_all add: is_ws_def delimited_def)
  then have l: "lex (JSON_stringify2 v) = Inr (tokens v)"
    by (simp add: JSON_stringify2_def)
  have "run (tokens v @ []) (Run []) = Option.bind (deliver v []) (run [])"
    using wf by (intro run_tokens) (simp_all add: awaits_value_def)
  then have "run (tokens v) (Run []) = Some (Done v)"
    by simp
  with l show ?thesis
    by (simp add: JSON_parse_def)
qed

section \<open>Properties of newPackageJson\<close>

lemma map_of_insert_index:
  "map_of (insert_index k v ps) k' = (if k' = k then Some v else map_of ps k')"
  by (induction ps) auto

lemma map_of_put: "map_of (put k v ps) k' = (if k' = k then Some v else map_of ps k')"
proof (cases "map_of ps k \<noteq> None")
  case True
  then show ?thesis by (simp add: put_def update_conv')
next
  case False
  then show ?thesis
    by (cases "is_array_index k")
      (auto simp: put_def map_of_insert_index map_add_def split: option.splits)
qed

lemma index_key_digits:
  "k \<in> set (map (\<lambda>i. show_digits (int i)) [0..<n]) \<Longrightarrow> list_all is_digit k"
  by (auto simp: show_digits_digits)

lemma map_of_zip_None: "k \<notin> set ks \<Longrightarrow> map_of (zip ks vs) k = None"
  by (auto simp: map_of_eq_None_iff dest: set_zip_leftD)


lemma spread_field:
  "\<not> list_all is_digit k \<Longrightarrow> map_of (spread p) k = field p k"
proof (cases p)
  case (JArr xs)
  assume "\<not> list_all is_digit k"
  then have "k \<notin> set (map (\<lambda>i. show_digits (int i)) [0..<length xs])"
    using index_key_digits by blast
  then show ?thesis using JArr by (simp add: field_def map_of_zip_None)
next
  case (JStr str)
  assume "\<not> list_all is_digit k"
  then have "k \<notin> set (map (\<lambda>i. show_digits (int i)) [0..<length str])"
    using index_key_digits by blast
  then show ?thesis using JStr by (simp add: field_def map_of_zip_None)
qed (simp_all add: field_def)

lemma or_assign_object:
  "or_assign (Some (JObj ps)) k v = Inr (JObj (if truthy (map_of ps k) then ps else put k v ps))"
  by (simp add: or_assign_def)

lemma map_of_or_put:
  "map_of (if truthy (map_of ps k) then ps else put k v ps) k'
     = (if k' = k then Some (or_else (map_of ps k) v) else map_of ps k')"
  by (auto simp: map_of_put or_else_def split: option.splits)


definition default_dependencies :: "(string \<times> string) list" where
  "default_dependencies =
     [(''firebase-admin'', FIREBASE_ADMIN_VERSION),
      (''firebase-functions'', FIREBASE_FUNCTIONS_VERSION),
      (''cookie'', COOKIE_VERSION),
      (''lru-cache'', LRU_CACHE_VERSION)]"

definition or_put :: "string \<Rightarrow> json \<Rightarrow> (string \<times> json) list \<Rightarrow> (string \<times> json) list" where
  "or_put k v ps = (if truthy (map_of ps k) then ps else put k v ps)"

definition patched_dependencies :: "(string \<times> json) list \<Rightarrow> (string \<times> json) list" where
  "patched_dependencies ds =
     or_put ''lru-cache'' (JStr LRU_CACHE_VERSION)
       (or_put ''cookie'' (JStr COOKIE_VERSION)
         (or_put ''firebase-functions'' (JStr FIREBASE_FUNCTIONS_VERSION)
           (or_put ''firebase-admin'' (JStr FIREBASE_ADMIN_VERSION) ds)))"

lemma or_assign_or_put: "or_assign (Some (JObj ps)) k v = Inr (JObj (or_put k v ps))"
  by (simp add: or_assign_def or_put_def)

lemma map_of_or_put':
  "map_of (or_put k v ps) k' = (if k' = k then Some (or_else (map_of ps k) v) else map_of ps k')"
  by (simp add: or_put_def map_of_or_put)

lemma spread_fields:
  "map_of (spread p) ''dependencies'' = field p ''dependencies''"
  "map_of (spread p) ''engines'' = field p ''engines''"
  "map_of (spread p) ''main'' = field p ''main''"
  by (simp_all add: spread_field is_digit_def)

lemma newPackageJSON_dependencies:
  assumes "field p ''dependencies'' = Some (JObj ds)"
  shows "newPackageJSON nv p =
     (let withDeps = put ''dependencies'' (JObj (patched_dependencies ds))
                       (put ''main'' (JStr ''server.js'') (spread p));
          withEngines = (if truthy (field p ''engines'') then withDeps
                         else put ''engines'' (JObj []) withDeps)
      in bind (or_assign (map_of withEngines ''engines'') ''node'' (JStr nv)) (\<lambda>e.
         Inr (put ''engines'' e withEngines)))"
  using assms
  by (simp add: newPackageJSON_def Let_def map_of_put spread_fields or_assign_or_put
                patched_dependencies_def)


definition record_of :: "json option \<Rightarrow> (string \<times> json) list" where
  "record_of v = (case v of Some (JObj ps) \<Rightarrow> ps | _ \<Rightarrow> [])"

definition PackageManifest :: "json \<Rightarrow> bool" where
  "PackageManifest p =
     ((case field p ''dependencies'' of Some (JObj ds) \<Rightarrow> True | _ \<Rightarrow> False)
      \<and> (case field p ''engines'' of Some (JObj es) \<Rightarrow> True | v \<Rightarrow> \<not> truthy v))"

definition patched_manifest :: "string \<Rightarrow> json \<Rightarrow> (string \<times> json) list" where
  "patched_manifest nv p =
     AList.update ''engines''
       (JObj (or_put ''node'' (JStr nv) (record_of (field p ''engines''))))
       (AList.update ''dependencies''
          (JObj (patched_dependencies (record_of (field p ''dependencies''))))
          (AList.update ''main'' (JStr ''server.js'') (spread p)))"

lemma update_absent: "map_of ps k = None \<Longrightarrow> AList.update k v ps = ps @ [(k, v)]"
  by (induction ps) (auto split: if_splits)

lemma put_update: "\<not> is_array_index k \<Longrightarrow> put k v ps = AList.update k v ps"
  by (simp add: put_def update_absent)

lemma not_index:
  "\<not> is_array_index ''main''" "\<not> is_array_index ''dependencies''"
  "\<not> is_array_index ''engines''" "\<not> is_array_index ''node''"
  "\<not> is_array_index ''firebase-admin''" "\<not> is_array_index ''firebase-functions''"
  "\<not> is_array_index ''cookie''" "\<not> is_array_index ''lru-cache''"
  by (simp_all add: is_array_index_def is_digit_def)

lemma newPackageJSON_PackageManifest:
  assumes "PackageManifest p"
  shows "newPackageJSON nv p = Inr (patched_manifest nv p)"
proof -
  from assms obtain ds where ds: "field p ''dependencies'' = Some (JObj ds)"
    by (auto simp: PackageManifest_def split: option.splits json.splits)
  from assms consider (obj) es where "field p ''engines'' = Some (JObj es)"
    | (none) "\<not> truthy (field p ''engines'')"
    by (auto simp: PackageManifest_def split: option.splits json.splits)
  then show ?thesis
  proof cases
    case obj
    then show ?thesis
      by (simp add: newPackageJSON_dependencies[OF ds] Let_def map_of_put spread_fields
                    or_assign_or_put patched_manifest_def record_of_def ds put_update not_index
                    update_conv')
  next
    case none
    then have r: "record_of (field p ''engines'') = []"
      by (auto simp: record_of_def split: option.splits json.splits)
    have rd: "record_of (field p ''dependencies'') = ds"
      by (simp add: ds record_of_def)
    from none show ?thesis
      by (simp add: newPackageJSON_dependencies[OF ds] Let_def map_of_put spread_fields
                    or_assign_or_put patched_manifest_def r rd put_update not_index
                    update_conv' or_put_def)
  qed
qed

definition pinned_empty_package :: json where
  "pinned_empty_package = JObj [(''dependencies'', JObj [(''firebase-admin'', JStr [])])]"

definition example_package :: json where
  "example_package =
     JObj [(''name'', JStr ''app''),
           (''dependencies'', JObj [(''firebase-admin'', JStr ''9.9.9'')])]"

lemma Some_or_else:
  "Some (or_else a (JStr d)) = (if truthy a then a else Some (JStr d))"
  by (cases a) (simp_all add: or_else_def)

lemma map_of_patched_dependencies:
  "(k, d) \<in> set default_dependencies \<Longrightarrow>
   map_of (patched_dependencies ds) k = (if truthy (map_of ds k) then map_of ds k else Some (JStr d))"
  by (auto simp: default_dependencies_def patched_dependencies_def map_of_or_put' Some_or_else)

lemma newPackageJson_PackageManifest:
  "PackageManifest p \<Longrightarrow>
   newPackageJson nv p = Inr (JSON_stringify2 (JObj (patched_manifest nv p)))"
  by (simp add: newPackageJson_def newPackageJSON_PackageManifest)

text \<open>
  C3, as stated, fails: a manifest that pins \<^verbatim>\<open>firebase-admin\<close> to the empty string
  (a value that is present, and that npm reads as any version) has it overwritten with
  the default constraint.
\<close>

theorem C3_present_value_counterexample:
  "field pinned_empty_package ''dependencies'' = Some (JObj [(''firebase-admin'', JStr [])])
   \<and> newPackageJSON ''16'' pinned_empty_package
       = Inr [(''dependencies'',
                 JObj [(''firebase-admin'', JStr ''^10.0.0''),
                       (''firebase-functions'', JStr ''^3.16.0''),
                       (''cookie'', JStr ''^0.4.2''),
                       (''lru-cache'', JStr ''^7.3.1'')]),
              (''main'', JStr ''server.js''),
              (''engines'', JObj [(''node'', JStr ''16'')])]"
  unfolding pinned_empty_package_def by code_simp

text \<open>
  C3, amended: for every package manifest whose dependencies are a record (and whose
  engines are a record or absent), each of the four fixed dependencies keeps its value
  when that value is truthy, and is set to its fixed default constraint when the key is
  absent or holds a falsy value (null, false, 0 or the empty string); likewise
  \<open>engines.node\<close> keeps a truthy value and is otherwise set to the major version of
  the running toolchain.
\<close>

theorem C3_defaults_fill_falsy:
  assumes "PackageManifest p"
  shows "\<exists>obj ds' es'.
           newPackageJSON nv p = Inr obj
           \<and> newPackageJson nv p = Inr (JSON_stringify2 (JObj obj))
           \<and> map_of obj ''dependencies'' = Some (JObj ds')
           \<and> map_of obj ''engines'' = Some (JObj es')
           \<and> (\<forall>(k, d) \<in> set default_dependencies.
                 map_of ds' k =
                   (if truthy (map_of (record_of (field p ''dependencies'')) k)
                    then map_of (record_of (field p ''dependencies'')) k
                    else Some (JStr d)))
           \<and> map_of es' ''node'' =
                 (if truthy (map_of (record_of (field p ''engines'')) ''node'')
                  then map_of (record_of (field p ''engines'')) ''node''
                  else Some (JStr nv))"
proof (intro exI conjI)
  show "newPackageJSON nv p = Inr (patched_manifest nv p)"
    using assms by (rule newPackageJSON_PackageManifest)
  show "newPackageJson nv p = Inr (JSON_stringify2 (JObj (patched_manifest nv p)))"
    using assms by (rule newPackageJson_PackageManifest)
  show "map_of (patched_manifest nv p) ''dependencies''
      = Some (JObj (patched_dependencies (record_of (field p ''dependencies''))))"
    by (simp add: patched_manifest_def update_conv')
  show "map_of (patched_manifest nv p) ''engines''
      = Some (JObj (or_put ''node'' (JStr nv) (record_of (field p ''engines''))))"
    by (simp add: patched_manifest_def update_conv')
  show "\<forall>(k, d) \<in> set default_dependencies.
      map_of (patched_dependencies (record_of (field p ''dependencies''))) k =
        (if truthy (map_of (record_of (field p ''dependencies'')) k)
         then map_of (record_of (field p ''dependencies'')) k
         else Some (JStr d))"
    using map_of_patched_dependencies by blast
  show "map_of (or_put ''node'' (JStr nv) (record_of (field p ''engines''))) ''node'' =
      (if truthy (map_of (record_of (field p ''engines'')) ''node'')
       then map_of (record_of (field p ''engines'')) ''node''
       else Some (JStr nv))"
    by (simp add: map_of_or_put' Some_or_else)
qed

theorem C3_defaults_fill_falsy_witness:
  "PackageManifest example_package
   \<and> (\<exists>obj ds' es'.
         newPackageJSON ''16'' example_package = Inr obj
         \<and> map_of obj ''dependencies'' = Some (JObj ds')
         \<and> map_of obj ''engines'' = Some (JObj es')
         \<and> map_of ds' ''firebase-admin'' = Some (JStr ''9.9.9'')
         \<and> map_of ds' ''cookie'' = Some (JStr ''^0.4.2'')
         \<and> map_of es' ''node'' = Some (JStr ''16''))"
proof -
  have pm: "PackageManifest example_package"
    by (simp add: PackageManifest_def example_package_def field_def)
  have d: "record_of (field example_package ''dependencies'') = [(''firebase-admin'', JStr ''9.9.9'')]"
    and e: "record_of (field example_package ''engines'') = []"
    by (simp_all add: record_of_def example_package_def field_def)
  from C3_defaults_fill_falsy[OF pm, of "''16''"] obtain obj ds' es' where
    o: "newPackageJSON ''16'' example_package = Inr obj"
      "map_of obj ''dependencies'' = Some (JObj ds')"
      "map_of obj ''engines'' = Some (JObj es')"
    and a: "\<forall>(k, d) \<in> set default_dependencies.
         map_of ds' k =
           (if truthy (map_of (record_of (field example_package ''dependencies'')) k)
            then map_of (record_of (field example_package ''dependencies'')) k
            else Some (JStr d))"
    and n: "map_of es' ''node'' =
         (if truthy (map_of (record_of (field example_package ''engines'')) ''node'')
          then map_of (record_of (field example_package ''engines'')) ''node''
          else Some (JStr ''16''))"
    by blast
  from a have "map_of ds' ''firebase-admin'' = Some (JStr ''9.9.9'')"
    and "map_of ds' ''cookie'' = Some (JStr ''^0.4.2'')"
    by (simp_all add: default_dependencies_def d COOKIE_VERSION_def)
  moreover from n have "map_of es' ''node'' = Some (JStr ''16'')"
    by (simp add: e)
  ultimately show ?thesis using pm o by blast
qed

text \<open>
  C10: for every package manifest that has no field \<open>dependencies\<close>,
  \<open>newPackageJson\<close> fails, whereas a manifest with dependencies and without
  \<open>engines\<close> gets an engines record and the function returns.
\<close>

theorem C10_missing_dependencies_fail:
  "(field p ''dependencies'' = None \<longrightarrow> newPackageJson nv p = Inl TypeError)
   \<and> (\<forall>ds. field p ''dependencies'' = Some (JObj ds) \<and> field p ''engines'' = None \<longrightarrow>
          (\<exists>t. newPackageJson nv p = Inr t))"
proof (intro conjI allI impI)
  assume "field p ''dependencies'' = None"
  then show "newPackageJson nv p = Inl TypeError"
    by (simp add: newPackageJson_def newPackageJSON_def Let_def map_of_put spread_fields
                  or_assign_def)
next
  fix ds
  assume "field p ''dependencies'' = Some (JObj ds) \<and> field p ''engines'' = None"
  then have "PackageManifest p"
    by (simp add: PackageManifest_def)
  then show "\<exists>t. newPackageJson nv p = Inr t"
    by (simp add: newPackageJson_PackageManifest)
qed

theorem C10_missing_dependencies_fail_witness:
  "field (JObj [(''name'', JStr ''app'')]) ''dependencies'' = None
   \<and> newPackageJson ''16'' (JObj [(''name'', JStr ''app'')]) = Inl TypeError
   \<and> field (JArr [JNum 1]) ''dependencies'' = None
   \<and> newPackageJson ''16'' (JArr [JNum 1]) = Inl TypeError"
  using C10_missing_dependencies_fail[of "JObj [(''name'', JStr ''app'')]" "''16''"]
    C10_missing_dependencies_fail[of "JArr [JNum 1]" "''16''"]
  by (simp add: field_def)

subsection \<open>Applying newPackageJson again\<close>

lemma or_assign_Inr:
  assumes "or_assign t k v = Inr r"
  obtains ps where "t = Some (JObj ps)" "r = JObj (or_put k v ps)"
    | xs where "t = Some (JArr xs)" "r = JArr xs"
  using assms by (auto simp: or_assign_def or_put_def split: option.splits json.splits)

lemma put_same: "map_of ps k = Some v \<Longrightarrow> put k v ps = ps"
  by (simp add: put_def update_triv)

lemma or_put_or_put: "or_put k v (or_put k v ps) = or_put k v ps"
  by (simp add: or_put_def map_of_put put_same)

lemma or_put_stable:
  assumes "or_put k v ps = ps" and "k \<noteq> k'"
  shows "or_put k v (or_put k' v' ps) = or_put k' v' ps"
proof (cases "truthy (map_of ps k)")
  case True
  then have "truthy (map_of (or_put k' v' ps) k)"
    using assms(2) by (simp add: map_of_or_put')
  then show ?thesis by (simp add: or_put_def)
next
  case False
  with assms(1) have "put k v ps = ps" by (simp add: or_put_def)
  then have "map_of ps k = Some v"
    using map_of_put[of k v ps k] by simp
  then have "map_of (or_put k' v' ps) k = Some v"
    using assms(2) by (simp add: map_of_or_put')
  then show ?thesis
    by (simp add: or_put_def[of k v] put_same)
qed

text \<open>A target that \<^verbatim>\<open>target[k] ||= v\<close> leaves as it is.\<close>

definition settled :: "json \<Rightarrow> string \<Rightarrow> json \<Rightarrow> bool" where
  "settled r k v = (or_assign (Some r) k v = Inr r)"

lemma or_assign_settled:
  assumes "or_assign t k v = Inr r"
  shows "settled r k v"
  using assms
proof (cases rule: or_assign_Inr)
  case (1 ps)
  then show ?thesis by (simp add: settled_def or_assign_or_put or_put_or_put)
next
  case (2 xs)
  then show ?thesis by (simp add: settled_def or_assign_def)
qed

lemma settled_other:
  assumes "settled r k v" and "or_assign (Some r) k' v' = Inr r'" and "k \<noteq> k'"
  shows "settled r' k v"
  using assms(2)
proof (cases rule: or_assign_Inr)
  case (1 ps)
  with assms(1) have "or_put k v ps = ps"
    by (simp add: settled_def or_assign_or_put)
  from or_put_stable[OF this assms(3)] 1 show ?thesis
    by (simp add: settled_def or_assign_or_put)
next
  case (2 xs)
  then show ?thesis by (simp add: settled_def or_assign_def)
qed

lemma or_assign_truthy: "or_assign t k v = Inr r \<Longrightarrow> truthy (Some r)"
  by (erule or_assign_Inr) simp_all

lemma newPackageJSON_again:
  assumes "newPackageJSON nv p = Inr obj"
  shows "newPackageJSON nv (JObj obj) = Inr obj"
proof -
  define wm where "wm = put ''main'' (JStr ''server.js'') (spread p)"
  from assms obtain d1 d2 d3 d4 e where
    a1: "or_assign (map_of wm ''dependencies'') ''firebase-admin'' (JStr FIREBASE_ADMIN_VERSION)
           = Inr d1"
    and a2: "or_assign (Some d1) ''firebase-functions'' (JStr FIREBASE_FUNCTIONS_VERSION) = Inr d2"
    and a3: "or_assign (Some d2) ''cookie'' (JStr COOKIE_VERSION) = Inr d3"
    and a4: "or_assign (Some d3) ''lru-cache'' (JStr LRU_CACHE_VERSION) = Inr d4"
    and a5: "or_assign
               (map_of (if truthy (map_of (put ''dependencies'' d4 wm) ''engines'')
                        then put ''dependencies'' d4 wm
                        else put ''engines'' (JObj []) (put ''dependencies'' d4 wm)) ''engines'')
               ''node'' (JStr nv) = Inr e"
    and obj: "obj = put ''engines'' e
               (if truthy (map_of (put ''dependencies'' d4 wm) ''engines'')
                then put ''dependencies'' d4 wm
                else put ''engines'' (JObj []) (put ''dependencies'' d4 wm))"
    unfolding newPackageJSON_def Let_def bind_eq_Inr wm_def by auto
  have main: "map_of obj ''main'' = Some (JStr ''server.js'')"
    and deps: "map_of obj ''dependencies'' = Some d4"
    and engines: "map_of obj ''engines'' = Some e"
    by (simp_all add: obj wm_def map_of_put)
  have s1: "settled d4 ''firebase-admin'' (JStr FIREBASE_ADMIN_VERSION)"
  proof -
    have "settled d2 ''firebase-admin'' (JStr FIREBASE_ADMIN_VERSION)"
      by (rule settled_other[OF or_assign_settled[OF a1] a2]) simp
    then have "settled d3 ''firebase-admin'' (JStr FIREBASE_ADMIN_VERSION)"
      by (rule settled_other[OF _ a3]) simp
    then show ?thesis
      by (rule settled_other[OF _ a4]) simp
  qed
  have s2: "settled d4 ''firebase-functions'' (JStr FIREBASE_FUNCTIONS_VERSION)"
  proof -
    have "settled d3 ''firebase-functions'' (JStr FIREBASE_FUNCTIONS_VERSION)"
      by (rule settled_other[OF or_assign_settled[OF a2] a3]) simp
    then show ?thesis
      by (rule settled_other[OF _ a4]) simp
  qed
  have s3: "settled d4 ''cookie'' (JStr COOKIE_VERSION)"
    by (rule settled_other[OF or_assign_settled[OF a3] a4]) simp
  have s4: "settled d4 ''lru-cache'' (JStr LRU_CACHE_VERSION)"
    by (rule or_assign_settled[OF a4])
  have s5: "settled e ''node'' (JStr nv)"
    by (rule or_assign_settled[OF a5])
  have te: "truthy (Some e)"
    by (rule or_assign_truthy[OF a5])
  have m: "put ''main'' (JStr ''server.js'') obj = obj"
    by (rule put_same[OF main])
  have d: "put ''dependencies'' d4 obj = obj"
    by (rule put_same[OF deps])
  have en: "put ''engines'' e obj = obj"
    by (rule put_same[OF engines])
  show ?thesis
    using s1 s2 s3 s4 s5 te
    by (simp add: newPackageJSON_def Let_def m d en deps engines settled_def)
qed

lemma keys_from_snoc:
  "keys_from acc (ks @ [k]) \<longleftrightarrow> keys_from acc ks \<and> appendable (acc @ ks) k"
  by (induction ks arbitrary: acc) simp_all

lemma keys_from_put:
  assumes "keys_from [] (map fst ps)" and "\<not> is_array_index k"
  shows "keys_from [] (map fst (put k v ps))"
proof (cases "k \<in> set (map fst ps)")
  case True
  then show ?thesis
    using assms by (simp add: put_update update_keys)
next
  case False
  then have "appendable ([] @ map fst ps) k"
    using assms(2) by (simp add: appendable_def)
  then show ?thesis
    using assms False by (simp add: put_update update_keys keys_from_snoc)
qed

lemma list_all_update:
  "list_all P ps \<Longrightarrow> P (k, v) \<Longrightarrow> list_all P (AList.update k v ps)"
  by (induction ps) auto

lemma wf_json_put:
  "wf_json (JObj ps) \<Longrightarrow> wf_json v \<Longrightarrow> \<not> is_array_index k \<Longrightarrow> wf_json (JObj (put k v ps))"
  using keys_from_put[of ps k v] list_all_update[of "\<lambda>p. wf_json (snd p)" ps k v]
  by (simp add: put_update)

lemma wf_json_or_put:
  "wf_json (JObj ps) \<Longrightarrow> wf_json v \<Longrightarrow> \<not> is_array_index k \<Longrightarrow> wf_json (JObj (or_put k v ps))"
  using wf_json_put[of ps v k] by (simp add: or_put_def del: wf_json.simps)

lemma wf_json_map_of: "wf_json (JObj ps) \<Longrightarrow> map_of ps k = Some v \<Longrightarrow> wf_json v"
  using map_of_SomeD[of ps k v] by (force simp: list_all_iff)

lemma wf_json_or_assign:
  assumes "or_assign t k (JStr s) = Inr r" and "\<And>x. t = Some x \<Longrightarrow> wf_json x"
    and "\<not> is_array_index k"
  shows "wf_json r"
  using assms(1)
proof (cases rule: or_assign_Inr)
  case (1 ps)
  have "wf_json (JStr s)" by simp
  with 1 show ?thesis
    using assms(2)[of "JObj ps"] assms(3) wf_json_or_put[of ps "JStr s" k] by blast
next
  case (2 xs)
  then show ?thesis using assms(2)[of "JArr xs"] by simp
qed

lemma newPackageJSON_wf:
  assumes "wf_json p" and "newPackageJSON nv p = Inr obj"
  shows "wf_json (JObj obj)"
proof -
  define wm where "wm = put ''main'' (JStr ''server.js'') (spread p)"
  from assms(2) obtain d1 d2 d3 d4 e where
    a1: "or_assign (map_of wm ''dependencies'') ''firebase-admin'' (JStr FIREBASE_ADMIN_VERSION)
           = Inr d1"
    and a2: "or_assign (Some d1) ''firebase-functions'' (JStr FIREBASE_FUNCTIONS_VERSION) = Inr d2"
    and a3: "or_assign (Some d2) ''cookie'' (JStr COOKIE_VERSION) = Inr d3"
    and a4: "or_assign (Some d3) ''lru-cache'' (JStr LRU_CACHE_VERSION) = Inr d4"
    and a5: "or_assign
               (map_of (if truthy (map_of (put ''dependencies'' d4 wm) ''engines'')
                        then put ''dependencies'' d4 wm
                        else put ''engines'' (JObj []) (put ''dependencies'' d4 wm)) ''engines'')
               ''node'' (JStr nv) = Inr e"
    and obj: "obj = put ''engines'' e
               (if truthy (map_of (put ''dependencies'' d4 wm) ''engines'')
                then put ''dependencies'' d4 wm
                else put ''engines'' (JObj []) (put ''dependencies'' d4 wm))"
    unfolding newPackageJSON_def Let_def bind_eq_Inr wm_def by auto
  from a1 have "map_of wm ''dependencies'' \<noteq> None"
    by (auto elim: or_assign_Inr)
  then have "field p ''dependencies'' \<noteq> None"
    by (simp add: wm_def map_of_put spread_fields)
  then obtain ps where p: "p = JObj ps"
    by (cases p) (simp_all add: field_def)
  have wm: "wf_json (JObj wm)"
    unfolding wm_def p spread.simps using assms(1)[unfolded p]
    by (rule wf_json_put) (simp_all add: not_index)
  have w1: "wf_json d1"
    using a1 wf_json_map_of[OF wm] by (rule wf_json_or_assign) (simp_all add: not_index)
  have w2: "wf_json d2"
    using a2 by (rule wf_json_or_assign) (simp_all add: not_index w1)
  have w3: "wf_json d3"
    using a3 by (rule wf_json_or_assign) (simp_all add: not_index w2)
  have w4: "wf_json d4"
    using a4 by (rule wf_json_or_assign) (simp_all add: not_index w3)
  have wd: "wf_json (JObj (put ''dependencies'' d4 wm))"
    using wm w4 by (rule wf_json_put) (simp add: not_index)
  define we where "we = (if truthy (map_of (put ''dependencies'' d4 wm) ''engines'')
                then put ''dependencies'' d4 wm
                else put ''engines'' (JObj []) (put ''dependencies'' d4 wm))"
  have "wf_json (JObj (put ''engines'' (JObj []) (put ''dependencies'' d4 wm)))"
    using wd by (rule wf_json_put) (simp_all add: not_index)
  with wd have we: "wf_json (JObj we)"
    by (simp add: we_def del: wf_json.simps)
  have "wf_json e"
    using a5[folded we_def] wf_json_map_of[OF we] by (rule wf_json_or_assign) (simp_all add: not_index)
  with we have "wf_json (JObj (put ''engines'' e we))"
    by (rule wf_json_put) (simp add: not_index)
  then show ?thesis
    by (simp only: obj[folded we_def])
qed

text \<open>
  C4: \<open>newPackageJson\<close> is idempotent: for every package manifest on which it
  returns, reading its JSON output back and applying it again gives the same JSON text.
\<close>

theorem C4_idempotent:
  assumes "wf_json p" and "newPackageJson nv p = Inr t"
  shows "\<exists>p'. JSON_parse t = Inr p' \<and> newPackageJson nv p' = Inr t"
proof -
  from assms(2) obtain obj where obj: "newPackageJSON nv p = Inr obj"
    and t: "t = JSON_stringify2 (JObj obj)"
    by (auto simp: newPackageJson_def bind_eq_Inr)
  have "JSON_parse t = Inr (JObj obj)"
    unfolding t by (rule JSON_parse_stringify2[OF newPackageJSON_wf[OF assms(1) obj]])
  moreover have "newPackageJson nv (JObj obj) = Inr t"
    by (simp add: newPackageJson_def newPackageJSON_again[OF obj] t)
  ultimately show ?thesis by blast
qed

definition example_package_text :: string where
  \<open>example_package_text =
     text_lines
     [''{'',
      ''  "name": "app",'',
      ''  "dependencies": {'',
      ''    "firebase-admin": "9.9.9",'',
      ''    "firebase-functions": "^3.16.0",'',
      ''    "cookie": "^0.4.2",'',
      ''    "lru-cache": "^7.3.1"'',
      ''  },'',
      ''  "main": "server.js",'',
      ''  "engines": {'',
      ''    "node": "16"'',
      ''  }'',
      ''}'']\<close>

lemma example_package_patched: "newPackageJson ''16'' example_package = Inr example_package_text"
  unfolding example_package_def example_package_text_def by code_simp

theorem C4_idempotent_witness:
  "wf_json example_package
   \<and> newPackageJson ''16'' example_package = Inr example_package_text
   \<and> (\<exists>p'. JSON_parse example_package_text = Inr p'
          \<and> newPackageJson ''16'' p' = Inr example_package_text)"
proof -
  have wf: "wf_json example_package"
    unfolding example_package_def by code_simp
  from C4_idempotent[OF wf example_package_patched] wf example_package_patched
  show ?thesis by blast
qed

section \<open>Properties of newServerJs\<close>





definition ssr_config :: DeployConfig where
  "ssr_config = \<lparr>function = Some \<lparr>gen = 2, name = ''ssr'', region = ''us-central1''\<rparr>\<rparr>"














































section \<open>Properties of newFunctionsYaml\<close>

definition ssr_descriptor_text :: string where
  \<open>ssr_descriptor_text =
     text_lines
     [''{'',
      ''  "endpoints": {'',
      ''    "ssr": {'',
      ''      "platform": "gcfv2",'',
      ''      "region": ['',
      ''        "us-central1"'',
      ''      ],'',
      ''      "labels": {},'',
      ''      "httpsTrigger": {},'',
      ''      "entryPoint": "ssr"'',
      ''    }'',
      ''  },'',
      ''  "specVersion": "v1alpha1",'',
      ''  "requiredAPIs": []'',
      ''}'']\<close>

lemma show_int_generation: "show_int 1 = ''1''" "show_int 2 = ''2''"
  by (simp_all add: show_int_def show_digits.simps digit_char_def char_of_eq_iff)

lemma ssr_descriptor: "newFunctionsYaml ssr_config = Inr ssr_descriptor_text"
  unfolding ssr_config_def ssr_descriptor_text_def by code_simp

text \<open>
  C6: for every configuration with generation 1 or 2, \<open>newFunctionsYaml\<close> returns
  the JSON text, indented by two spaces, of a descriptor with the keys \<open>endpoints\<close>,
  \<open>specVersion\<close> and \<open>requiredAPIs\<close>: the endpoints have the single key
  \<open>name\<close>, with the platform \<open>gcfv\<close> followed by the generation, the region as a
  list of one element, empty labels, an HTTPS trigger and the entry point \<open>name\<close>;
  the version is \<open>v1alpha1\<close> and the required APIs are empty.
\<close>

theorem C6_function_descriptor:
  assumes "function config = Some f" and "gen f = 1 \<or> gen f = 2"
  shows "\<exists>t d e.
           newFunctionsYaml config = Inr t
           \<and> t = JSON_stringify2 (JObj d)
           \<and> JSON_parse t = Inr (JObj d)
           \<and> map fst d = [''endpoints'', ''specVersion'', ''requiredAPIs'']
           \<and> map_of d ''endpoints'' = Some (JObj [(name f, JObj e)])
           \<and> map_of d ''specVersion'' = Some (JStr ''v1alpha1'')
           \<and> map_of d ''requiredAPIs'' = Some (JArr [])
           \<and> map fst e = [''platform'', ''region'', ''labels'', ''httpsTrigger'', ''entryPoint'']
           \<and> map_of e ''platform'' = Some (JStr (''gcfv'' @ (if gen f = 1 then ''1'' else ''2'')))
           \<and> map_of e ''region'' = Some (JArr [JStr (region f)])
           \<and> map_of e ''labels'' = Some (JObj [])
           \<and> map_of e ''httpsTrigger'' = Some (JObj [])
           \<and> map_of e ''entryPoint'' = Some (JStr (name f))"
proof -
  define e where "e =
    [(''platform'', JStr (''gcfv'' @ show_int (gen f))),
     (''region'', JArr [JStr (region f)]),
     (''labels'', JObj []),
     (''httpsTrigger'', JObj []),
     (''entryPoint'', JStr (name f))]"
  define d where "d =
    [(''endpoints'', JObj [(name f, JObj e)]),
     (''specVersion'', JStr ''v1alpha1''),
     (''requiredAPIs'', JArr [])]"
  have t: "newFunctionsYaml config = Inr (JSON_stringify2 (JObj d))"
    using assms(1) by (simp add: newFunctionsYaml_def d_def e_def)
  have "wf_json (JObj d)"
    by (simp add: d_def e_def appendable_def is_array_index_def is_digit_def)
  then have p: "JSON_parse (JSON_stringify2 (JObj d)) = Inr (JObj d)"
    by (rule JSON_parse_stringify2)
  have g: "show_int (gen f) = (if gen f = 1 then ''1'' else ''2'')"
    using assms(2) by (auto simp: show_int_generation)
  show ?thesis
    using t p by (intro exI[of _ "JSON_stringify2 (JObj d)"] exI[of _ d] exI[of _ e])
      (simp add: d_def e_def g)
qed

theorem C6_function_descriptor_witness:
  "function ssr_config = Some \<lparr>gen = 2, name = ''ssr'', region = ''us-central1''\<rparr>
   \<and> newFunctionsYaml ssr_config = Inr ssr_descriptor_text
   \<and> (\<exists>d e. JSON_parse ssr_descriptor_text = Inr (JObj d)
          \<and> map_of d ''endpoints'' = Some (JObj [(''ssr'', JObj e)])
          \<and> map_of e ''platform'' = Some (JStr ''gcfv2'')
          \<and> map_of e ''region'' = Some (JArr [JStr ''us-central1'']))"
proof -
  have f: "function ssr_config = Some \<lparr>gen = 2, name = ''ssr'', region = ''us-central1''\<rparr>"
    by (simp add: ssr_config_def)
  from C6_function_descriptor[OF f] obtain t d e where
    "newFunctionsYaml ssr_config = Inr t" "JSON_parse t = Inr (JObj d)"
    "map_of d ''endpoints'' = Some (JObj [(''ssr'', JObj e)])"
    "map_of e ''platform'' = Some (JStr ''gcfv2'')"
    "map_of e ''region'' = Some (JArr [JStr ''us-central1''])"
    by auto
  then show ?thesis
    using f ssr_descriptor by auto
qed

end
